theory Spec2Isabelle
  imports Main "HOL-Library.Sublist" "HOL-Library.AList"
begin

section \<open>The indexer of \<^verbatim>\<open>bids/layout/index.py\<close>\<close>

text \<open>
  The module walks a dataset directory, creates a file record and its tags for every
  qualifying file (\<^verbatim>\<open>index_layout\<close>, with the closures \<^verbatim>\<open>_index_file\<close> and
  \<^verbatim>\<open>index_dir\<close>), and then attaches the metadata of JSON sidecars to the indexed
  files (\<^verbatim>\<open>_index_metadata\<close>). The functions below follow the Python text statement
  by statement. The leading underscore of \<^verbatim>\<open>_extract_entities\<close>, \<^verbatim>\<open>_index_file\<close> and
  \<^verbatim>\<open>_index_metadata\<close> is dropped, since an Isabelle name cannot start with one.
\<close>

subsection \<open>Values, dictionaries and paths\<close>

text \<open>
  A JSON value as \<^verbatim>\<open>json.load\<close> returns it (numbers are integers here). A Python
  \<^verbatim>\<open>dict\<close> is an association list in insertion order: \<^const>\<open>AList.update\<close> overwrites the
  value of a key that is present, in place, and appends a new key at the end, as
  assignment to a dict item does.
\<close>

datatype json =
  JNull | JBool bool | JNum int | JStr string | JArr "json list" | JObj "(string \<times> json) list"

type_synonym 'v dict = "(string \<times> 'v) list"

definition keys :: "'v dict \<Rightarrow> string list" where
  "keys d = map fst d"

definition dict_values :: "'v dict \<Rightarrow> 'v list" where
  "dict_values d = map snd d"

text \<open>\<^verbatim>\<open>d.update(other)\<close> for a dict \<^verbatim>\<open>other\<close>.\<close>

definition dict_update :: "'v dict \<Rightarrow> 'v dict \<Rightarrow> 'v dict" where
  "dict_update d other = fold (\<lambda>(k, v) acc. AList.update k v acc) other d"

text \<open>\<^verbatim>\<open>d.pop(k, None)\<close>: the value (or \<^verbatim>\<open>None\<close>) and the dict without the key.\<close>

definition dict_pop :: "'v dict \<Rightarrow> string \<Rightarrow> 'v option \<times> 'v dict" where
  "dict_pop d k = (map_of d k, AList.delete k d)"

text \<open>\<^verbatim>\<open>posixpath.join(a, b)\<close>, \<^verbatim>\<open>posixpath.dirname(p)\<close>.\<close>

definition os_path_join :: "string \<Rightarrow> string \<Rightarrow> string" where
  "os_path_join a b =
     (if prefix ''/'' b then b
      else if a = [] \<or> suffix ''/'' a then a @ b
      else a @ ''/'' @ b)"

definition os_path_dirname :: "string \<Rightarrow> string" where
  "os_path_dirname p =
     (let head = rev (dropWhile (\<lambda>c. c \<noteq> CHR ''/'') (rev p))
      in if head \<noteq> [] \<and> (\<exists>c \<in> set head. c \<noteq> CHR ''/'')
         then rev (dropWhile (\<lambda>c. c = CHR ''/'') (rev head))
         else head)"

subsection \<open>Records of the data model\<close>

text \<open>
  The classes \<^verbatim>\<open>BIDSFile\<close>, \<^verbatim>\<open>Entity\<close>, \<^verbatim>\<open>Tag\<close>, \<^verbatim>\<open>FileAssociation\<close> and \<^verbatim>\<open>Config\<close> come
  from \<^verbatim>\<open>.models\<close>; the indexer only constructs them and reads the attributes that are
  fields here. \<^verbatim>\<open>match_file\<close> is the entity's matcher: the value it extracts from a file,
  as \<^verbatim>\<open>str\<close> renders it, or \<^verbatim>\<open>None\<close>.
\<close>

record bidsfile =
  path :: string
  dirname :: string

definition BIDSFile :: "string \<Rightarrow> bidsfile" where
  "BIDSFile filename = \<lparr>path = filename, dirname = os_path_dirname filename\<rparr>"

record entity =
  name :: string
  mandatory :: bool
  dtype :: string
  is_metadata :: bool
  match_file :: "bidsfile \<Rightarrow> string option"

text \<open>\<^verbatim>\<open>Entity(md_key, is_metadata=True)\<close>: no pattern, not mandatory, dtype \<^verbatim>\<open>'str'\<close>.\<close>

definition Entity :: "string \<Rightarrow> bool \<Rightarrow> entity" where
  "Entity nm is_md =
     \<lparr>name = nm, mandatory = False, dtype = ''str'', is_metadata = is_md,
      match_file = (\<lambda>_. None)\<rparr>"

record tag =
  tag_file :: bidsfile
  entity :: entity
  val :: json
  tag_dtype :: "string option"

definition Tag :: "bidsfile \<Rightarrow> entity \<Rightarrow> json \<Rightarrow> string option \<Rightarrow> tag" where
  "Tag bf ent v dt = \<lparr>tag_file = bf, entity = ent, val = v, tag_dtype = dt\<rparr>"

record file_association =
  src :: string
  dst :: string
  kind :: string

definition FileAssociation :: "string \<Rightarrow> string \<Rightarrow> string \<Rightarrow> file_association" where
  "FileAssociation s d k = \<lparr>src = s, dst = d, kind = k\<rparr>"

record config =
  entities :: "entity dict"

subsection \<open>The session\<close>

text \<open>
  The records added to the session so far, by class, in the order of the \<^verbatim>\<open>add\<close> calls,
  and the number of records added since the last \<^verbatim>\<open>commit\<close> (\<^verbatim>\<open>len(session.new)\<close>).
\<close>

record session =
  files :: "bidsfile list"
  tags :: "tag list"
  ents :: "entity list"
  associations :: "file_association list"
  new :: nat

definition empty_session :: session where
  "empty_session = \<lparr>files = [], tags = [], ents = [], associations = [], new = 0\<rparr>"

definition add_file :: "bidsfile \<Rightarrow> session \<Rightarrow> session" where
  "add_file bf s = s\<lparr>files := files s @ [bf], new := Suc (new s)\<rparr>"

definition add_tag :: "tag \<Rightarrow> session \<Rightarrow> session" where
  "add_tag t s = s\<lparr>tags := tags s @ [t], new := Suc (new s)\<rparr>"

definition add_entity :: "entity \<Rightarrow> session \<Rightarrow> session" where
  "add_entity e s = s\<lparr>ents := ents s @ [e], new := Suc (new s)\<rparr>"

definition add_all :: "file_association list \<Rightarrow> session \<Rightarrow> session" where
  "add_all as s = s\<lparr>associations := associations s @ as, new := new s + length as\<rparr>"

text \<open>The key of a tag: the path of its file and the name of its entity.\<close>

definition tag_key :: "tag \<Rightarrow> string \<times> string" where
  "tag_key t = (path (tag_file t), name (entity t))"

datatype error = ConfigLoadError | JSONDecodeError | TypeError | FlushError | IntegrityError

text \<open>
  Modelled from the spec: the session is the store, an external collaborator whose code
  is not part of the sources. By section 3 of the spec the store holds at most one Tag
  per (File, Entity) pair, an Entity has a unique name, a File stands for one path, and
  between the same pair of paths there may be several associations only "with different
  kinds". \<^verbatim>\<open>session.commit()\<close> flushes the pending records; it raises when the records break
  one of these, and the indexer catches nothing, so the run ends there. Otherwise nothing
  is pending afterwards.
\<close>

definition commit :: "session \<Rightarrow> error + session" where
  "commit s =
     (if \<not> distinct (map tag_key (tags s)) then Inl FlushError
      else if \<not> distinct (map path (files s)) \<or> \<not> distinct (map name (ents s)) \<or>
              \<not> distinct (associations s)
        then Inl IntegrityError
      else Inr (s\<lparr>new := 0\<rparr>))"

subsection \<open>The layout and the outside world\<close>

text \<open>
  The attributes of \<^verbatim>\<open>layout\<close> that the indexer reads. The validators
  \<^verbatim>\<open>layout._validate_file\<close> and \<^verbatim>\<open>layout._validate_dir\<close> are supplied by the caller.
\<close>

record layout =
  root :: string
  config_filename :: string
  force_index :: "(string \<Rightarrow> bool) list"
  config :: "config dict"
  validate_file :: "string \<Rightarrow> bool"
  validate_dir :: "string \<Rightarrow> bool"

text \<open>
  Modelled from the spec: \<^verbatim>\<open>check_path_matches_patterns\<close> is imported from \<^verbatim>\<open>..utils\<close>,
  which is not part of the sources. The spec calls it \<^verbatim>\<open>matchesForceIndexPatterns(path)\<close>,
  true when the path matches a force-index pattern; a pattern is a predicate on paths.
\<close>

definition check_path_matches_patterns :: "string \<Rightarrow> (string \<Rightarrow> bool) list \<Rightarrow> bool" where
  "check_path_matches_patterns p patterns = list_ex (\<lambda>patt. patt p) patterns"

text \<open>
  What the indexer asks of the file system and of the interpreter: whether a path
  exists, \<^verbatim>\<open>Config.load\<close> of a path, \<^verbatim>\<open>json.load\<close> of the file at a path (a sidecar holds
  a JSON object), and how \<^verbatim>\<open>str.format\<close> renders a value that is not a string.
\<close>

record world =
  path_exists :: "string \<Rightarrow> bool"
  config_load :: "string \<Rightarrow> error + config"
  json_load :: "string \<Rightarrow> error + json dict"
  format_other :: "json \<Rightarrow> string"

text \<open>
  A directory as \<^verbatim>\<open>os.walk\<close> lists it: the names of its files, and its subdirectories by
  name.
\<close>

datatype dirtree = Dir "string list" "(string \<times> dirtree) list"

subsection \<open>Entity extraction\<close>

text \<open>The loop of \<^verbatim>\<open>_extract_entities\<close> (lines 19 to 26), \<^verbatim>\<open>match_vals\<close> as accumulator.\<close>

fun extract_entities_loop ::
  "bidsfile \<Rightarrow> entity list \<Rightarrow> (entity \<times> string) dict \<Rightarrow> (entity \<times> string) dict" where
  "extract_entities_loop bidsfile [] match_vals = match_vals"
| "extract_entities_loop bidsfile (e # es) match_vals =
     (let m = match_file e bidsfile in
      if m = None \<and> mandatory e then match_vals
      else if m \<noteq> None
        then extract_entities_loop bidsfile es (AList.update (name e) (e, the m) match_vals)
        else extract_entities_loop bidsfile es match_vals)"

definition extract_entities :: "bidsfile \<Rightarrow> entity dict \<Rightarrow> (entity \<times> string) dict" where
  "extract_entities bidsfile entities_d =
     extract_entities_loop bidsfile (dict_values entities_d) []"

subsection \<open>\<^verbatim>\<open>_index_file\<close>\<close>

text \<open>The loop written out inside \<^verbatim>\<open>_index_file\<close> (lines 47 to 53).\<close>

fun index_file_match_loop ::
  "bidsfile \<Rightarrow> entity list \<Rightarrow> (entity \<times> string) dict \<Rightarrow> (entity \<times> string) dict" where
  "index_file_match_loop bf [] match_vals = match_vals"
| "index_file_match_loop bf (e # es) match_vals =
     (let m = match_file e bf in
      if m = None \<and> mandatory e then match_vals
      else if m \<noteq> None
        then index_file_match_loop bf es (AList.update (name e) (e, the m) match_vals)
        else index_file_match_loop bf es match_vals)"

definition index_file_match_vals :: "bidsfile \<Rightarrow> entity dict \<Rightarrow> (entity \<times> string) dict" where
  "index_file_match_vals bf entities_d = index_file_match_loop bf (dict_values entities_d) []"

text \<open>
  \<^verbatim>\<open>_index_file\<close> is a closure of \<^verbatim>\<open>index_layout\<close>: its \<^verbatim>\<open>force_index\<close> is the argument of
  \<^verbatim>\<open>index_layout\<close> (here \<open>top_force\<close>, its truth value), and \<^verbatim>\<open>layout\<close> and \<^verbatim>\<open>session\<close> are
  those of \<^verbatim>\<open>index_layout\<close>. The result is the file record, or \<^verbatim>\<open>None\<close>, and the session.
\<close>

definition index_file ::
  "layout \<Rightarrow> bool \<Rightarrow> string \<Rightarrow> string \<Rightarrow> entity dict \<Rightarrow> session \<Rightarrow> bidsfile option \<times> session" where
  "index_file L top_force f dirpath entities_d s =
     (let abs_fn = os_path_join dirpath f in
      if \<not> top_force \<and> \<not> validate_file L abs_fn then (None, s)
      else
        let bf = BIDSFile abs_fn;
            s1 = add_file bf s;
            match_vals = index_file_match_vals bf entities_d;
            s2 = fold (\<lambda>(_, (ent, v)) acc. add_tag (Tag bf ent (JStr v) (Some (dtype ent))) acc)
                   match_vals s1
        in (Some bf, s2))"

subsection \<open>\<^verbatim>\<open>index_dir\<close>\<close>

text \<open>
  \<^verbatim>\<open>index_dir(path, config, parent, force_index)\<close> reads the first triple of
  \<^verbatim>\<open>os.walk(path)\<close>, which is the listing \<open>Dir filenames dirnames\<close> of the directory, and
  stops the walk there. \<open>index_subdirs\<close> is its loop over \<^verbatim>\<open>dirnames\<close>; the local
  variable \<^verbatim>\<open>force_index\<close> of \<^verbatim>\<open>index_dir\<close> is assigned inside that loop and so is carried
  from one iteration to the next.
\<close>

fun index_dir ::
  "world \<Rightarrow> layout \<Rightarrow> bool \<Rightarrow> string \<Rightarrow> config list \<Rightarrow> string option \<Rightarrow> bool \<Rightarrow> dirtree \<Rightarrow>
     session \<Rightarrow> error + session"
and index_subdirs ::
  "world \<Rightarrow> layout \<Rightarrow> bool \<Rightarrow> string \<Rightarrow> config list \<Rightarrow> bool \<Rightarrow> (string \<times> dirtree) list \<Rightarrow>
     session \<Rightarrow> error + session" where
  "index_dir W L top_force path_arg config_arg parent force_index_arg (Dir filenames dirnames) s =
     (let abs_path = os_path_join (root L) path_arg;
          layout_file = config_filename L;
          config_file = os_path_join abs_path layout_file
      in case (if path_exists W config_file
               then (case config_load W config_file of
                       Inl err \<Rightarrow> Inl err
                     | Inr cfg \<Rightarrow> Inr (config_arg @ [cfg]))
               else Inr config_arg) of
           Inl err \<Rightarrow> Inl err
         | Inr config' \<Rightarrow>
            (let config_entities = fold (\<lambda>c acc. dict_update acc (entities c)) config' [];
                 dirpath = path_arg;
                 filenames' = (if config_filename L \<in> set filenames
                               then remove1 (config_filename L) filenames else filenames);
                 s1 = fold (\<lambda>f acc. snd (index_file L top_force f dirpath config_entities acc))
                        filenames' s
             in case commit s1 of
                  Inl err \<Rightarrow> Inl err
                | Inr s2 \<Rightarrow>
                    index_subdirs W L top_force dirpath config' force_index_arg dirnames s2))"
| "index_subdirs W L top_force dirpath config' force_index_var [] s = Inr s"
| "index_subdirs W L top_force dirpath config' force_index_var ((d0, sub) # rest) s =
     (let d = os_path_join dirpath d0 in
      if prefix (os_path_join (root L) ''derivatives'') d
        then index_subdirs W L top_force dirpath config' force_index_var rest s
      else if check_path_matches_patterns d (force_index L)
        then (case index_dir W L top_force d config' (Some dirpath) True sub s of
                Inl err \<Rightarrow> Inl err
              | Inr s' \<Rightarrow> index_subdirs W L top_force dirpath config' True rest s')
      else if \<not> validate_dir L d \<and> \<not> (force_index L \<noteq> [])
        then index_subdirs W L top_force dirpath config' force_index_var rest s
      else (case index_dir W L top_force d config' (Some dirpath) force_index_var sub s of
              Inl err \<Rightarrow> Inl err
            | Inr s' \<Rightarrow> index_subdirs W L top_force dirpath config' force_index_var rest s'))"


subsection \<open>\<^verbatim>\<open>_index_metadata\<close>\<close>

text \<open>
  Modelled from the spec: \<^verbatim>\<open>bf.entities\<close> and \<^verbatim>\<open>layout.get\<close> belong to \<^verbatim>\<open>.models\<close> and to
  the layout class, which are not part of the sources. By the spec a File has a "derived
  mapping entity-name \<rightarrow> value", read here from the tags of the file in the session, and
  the metadata pass runs "over the completed file index", the file records of the session.
\<close>

definition file_entities :: "session \<Rightarrow> bidsfile \<Rightarrow> json dict" where
  "file_entities s bf =
     fold (\<lambda>t acc. AList.update (name (entity t)) (val t) acc)
       (filter (\<lambda>t. path (tag_file t) = path bf) (tags s)) []"

definition layout_get :: "session \<Rightarrow> bidsfile list" where
  "layout_get s = files s"

text \<open>\<^verbatim>\<open>x is not None\<close> for the result of \<^verbatim>\<open>pop(k, None)\<close>; JSON \<^verbatim>\<open>null\<close> is \<^verbatim>\<open>None\<close>.\<close>

definition is_not_None :: "json option \<Rightarrow> bool" where
  "is_not_None x = (x \<noteq> None \<and> x \<noteq> Some JNull)"

text \<open>\<^verbatim>\<open>"{}".format(v)\<close>: a string is rendered as itself.\<close>

definition py_format :: "world \<Rightarrow> json \<Rightarrow> string" where
  "py_format W v = (case v of JStr x \<Rightarrow> x | _ \<Rightarrow> format_other W v)"

text \<open>
  \<^verbatim>\<open>file_data\<close>: \<^verbatim>\<open>{key: {dirname: [(entities, payload, path)]}}\<close>, the inner dict a
  \<^verbatim>\<open>defaultdict(list)\<close>. \<open>fd_get\<close> is \<^verbatim>\<open>file_data.get(key, {}).get(dirname, [])\<close> and
  \<open>fd_append\<close> is lines 156 to 157 with line 166.
\<close>

type_synonym fd_entry = "json dict \<times> json dict option \<times> string"

type_synonym file_data = "string \<rightharpoonup> (string \<rightharpoonup> fd_entry list)"

definition fd_get :: "file_data \<Rightarrow> string \<Rightarrow> string \<Rightarrow> fd_entry list" where
  "fd_get file_data key d =
     (case file_data key of
        None \<Rightarrow> []
      | Some by_dir \<Rightarrow> (case by_dir d of None \<Rightarrow> [] | Some entries \<Rightarrow> entries))"

definition fd_append :: "file_data \<Rightarrow> string \<Rightarrow> string \<Rightarrow> fd_entry \<Rightarrow> file_data" where
  "fd_append file_data key d to_store =
     (let by_dir = (case file_data key of None \<Rightarrow> Map.empty | Some m \<Rightarrow> m);
          entries = (case by_dir d of None \<Rightarrow> [] | Some l \<Rightarrow> l)
      in file_data(key \<mapsto> by_dir(d \<mapsto> entries @ [to_store])))"

text \<open>The first loop (lines 149 to 166); the session is only read.\<close>

fun build_file_data ::
  "world \<Rightarrow> session \<Rightarrow> bidsfile list \<Rightarrow> file_data \<Rightarrow> error + file_data" where
  "build_file_data W s [] file_data = Inr file_data"
| "build_file_data W s (bf # bfs) file_data =
     (let file_ents0 = file_entities s bf;
          (sfx, file_ents1) = dict_pop file_ents0 ''suffix'';
          (ext, file_ents) = dict_pop file_ents1 ''extension''
      in if is_not_None sfx \<and> is_not_None ext
         then
           (let key = py_format W (the ext) @ ''/'' @ py_format W (the sfx) in
            case (if ext = Some (JStr ''json'')
                  then (case json_load W (path bf) of
                          Inl err \<Rightarrow> Inl err
                        | Inr payload \<Rightarrow> Inr (Some payload))
                  else Inr None) of
              Inl err \<Rightarrow> Inl err
            | Inr payload \<Rightarrow>
                build_file_data W s bfs
                  (fd_append file_data key (dirname bf) (file_ents, payload, path bf)))
         else build_file_data W s bfs file_data)"

text \<open>
  The test of lines 198 to 203 (and again 209 to 213): no key of the candidate is
  missing from the file's entities, and the values agree on every key of the candidate.
\<close>

definition ents_match :: "json dict \<Rightarrow> json dict \<Rightarrow> bool" where
  "ents_match js_ents file_ents =
     (if \<exists>k \<in> set (keys js_ents). k \<notin> set (keys file_ents) then False
      else list_all (\<lambda>nm. the (map_of js_ents nm) = the (map_of file_ents nm)) (keys js_ents))"

text \<open>
  The \<^verbatim>\<open>while True\<close> loop of lines 194 to 219: at each directory, from the file's own
  upwards, the matching JSON entries are appended to \<^verbatim>\<open>payloads\<close> and the matching
  entries of the file's own extension to \<^verbatim>\<open>ancestors\<close>; the loop ends at the directory
  that is its own parent.
\<close>

function ancestry_loop ::
  "file_data \<Rightarrow> string \<Rightarrow> string \<Rightarrow> json dict \<Rightarrow> string \<Rightarrow>
     (json dict option \<times> string) list \<Rightarrow> string list \<Rightarrow>
     (json dict option \<times> string) list \<times> string list" where
  "ancestry_loop file_data json_key ext_key file_ents dirname_var payloads ancestors =
     (let json_data = fd_get file_data json_key dirname_var;
          payloads' = payloads @
            map (\<lambda>(js_ents, js_md, js_path). (js_md, js_path))
              (filter (\<lambda>(js_ents, js_md, js_path). ents_match js_ents file_ents) json_data);
          candidates = fd_get file_data ext_key dirname_var;
          ancestors' = ancestors @
            map (\<lambda>(ents_d, _, p). p)
              (filter (\<lambda>(ents_d, _, p). ents_match ents_d file_ents) candidates);
          parent = os_path_dirname dirname_var
      in if parent = dirname_var then (payloads', ancestors')
         else ancestry_loop file_data json_key ext_key file_ents parent payloads' ancestors')"
  by pat_completeness auto
termination
proof -
  have a: "length (dropWhile P xs) \<le> length xs" for P and xs :: string
    by (simp add: length_dropWhile_le)
  have b: "dropWhile P xs = xs" if "length (dropWhile P xs) = length xs" for P and xs :: string
    using that a [of P "tl xs"] by (cases xs) (auto split: if_splits)
  have shorter: "length (os_path_dirname p) < length p" if ne: "os_path_dirname p \<noteq> p" for p
  proof (rule ccontr)
    let ?h = "rev (dropWhile (\<lambda>c. c \<noteq> CHR ''/'') (rev p))"
    have h_le: "length ?h \<le> length p"
      using a [of "\<lambda>c. c \<noteq> CHR ''/''" "rev p"] by simp
    assume "\<not> length (os_path_dirname p) < length p"
    then have ge: "length p \<le> length (os_path_dirname p)" by simp
    have le1: "length (os_path_dirname p) \<le> length ?h"
      using a [of "\<lambda>c. c = CHR ''/''" "rev ?h"]
      by (simp add: os_path_dirname_def Let_def del: rev_rev_ident)
    from ge le1 h_le have e1: "length ?h = length p" by simp
    then have "dropWhile (\<lambda>c. c \<noteq> CHR ''/'') (rev p) = rev p"
      using b [of "\<lambda>c. c \<noteq> CHR ''/''" "rev p"] by simp
    then have hp: "?h = p" by simp
    from ge le1 e1 have e2: "length (os_path_dirname p) = length ?h" by simp
    have "os_path_dirname p = p"
    proof (cases "p \<noteq> [] \<and> (\<exists>c \<in> set p. c \<noteq> CHR ''/'')")
      case True
      then have d: "os_path_dirname p = rev (dropWhile (\<lambda>c. c = CHR ''/'') (rev p))"
        using hp by (simp add: os_path_dirname_def Let_def)
      with e2 hp have "length (dropWhile (\<lambda>c. c = CHR ''/'') (rev p)) = length (rev p)"
        by simp
      then have "dropWhile (\<lambda>c. c = CHR ''/'') (rev p) = rev p"
        by (rule b)
      with d show ?thesis by simp
    next
      case False
      then show ?thesis using hp by (auto simp add: os_path_dirname_def Let_def)
    qed
    with ne show False by contradiction
  qed
  show ?thesis
    by (relation "measure (\<lambda>(fd, jk, ek, fe, d, pl, an). length d)")
       (auto simp add: shorter)
qed

declare ancestry_loop.simps [simp del]

text \<open>
  Lines 233 to 235, called on \<^verbatim>\<open>payloads[::-1]\<close>. The payload of an entry that was stored
  for a file whose extension is not \<^verbatim>\<open>'json'\<close> is \<^verbatim>\<open>None\<close>, and \<^verbatim>\<open>update(None)\<close> raises.
\<close>

fun consolidate :: "(json dict option \<times> string) list \<Rightarrow> json dict \<Rightarrow> error + json dict" where
  "consolidate [] file_md = Inr file_md"
| "consolidate ((pl, js_file) # rest) file_md =
     (case pl of
        None \<Rightarrow> Inl TypeError
      | Some d \<Rightarrow> consolidate rest (dict_update file_md d))"

text \<open>Lines 238 to 246, and 249 to 257 on \<^verbatim>\<open>ancestors\<close>: the links of neighbours.\<close>

fun add_chain :: "string list \<Rightarrow> session \<Rightarrow> session" where
  "add_chain (a # b # rest) s =
     add_chain (b # rest)
       (add_all [FileAssociation a b ''Child'', FileAssociation b a ''Parent''] s)"
| "add_chain [a] s = s"
| "add_chain [] s = s"

text \<open>Lines 260 to 265, over \<^verbatim>\<open>file_md.items()\<close>.\<close>

fun md_tags_loop ::
  "bidsfile \<Rightarrow> json dict \<Rightarrow> entity dict \<times> session \<Rightarrow> entity dict \<times> session" where
  "md_tags_loop bf [] (all_entities, s) = (all_entities, s)"
| "md_tags_loop bf ((md_key, md_val) # rest) (all_entities, s) =
     (let (all_entities1, s1) =
            (if md_key \<notin> set (keys all_entities)
             then (let ae = AList.update md_key (Entity md_key True) all_entities
                   in (ae, add_entity (the (map_of ae md_key)) s))
             else (all_entities, s));
          t = Tag bf (the (map_of all_entities1 md_key)) md_val None;
          s2 = add_tag t s1
      in md_tags_loop bf rest (all_entities1, s2))"

text \<open>
  The body of the second loop for one file, lines 171 to 265. The result is \<^verbatim>\<open>None\<close> when
  the body leaves through one of its \<^verbatim>\<open>continue\<close> statements (lines 177 and 222), which
  change nothing and skip the rest of the iteration.
\<close>

definition index_metadata_body ::
  "world \<Rightarrow> file_data \<Rightarrow> bidsfile \<Rightarrow> entity dict \<times> session \<Rightarrow>
     error + (entity dict \<times> session) option" where
  "index_metadata_body W file_data bf st =
     (let all_entities = fst st; s = snd st;
          file_ents0 = file_entities s bf;
          (sfx, file_ents1) = dict_pop file_ents0 ''suffix'';
          (ext, file_ents) = dict_pop file_ents1 ''extension''
      in if \<not> is_not_None sfx \<or> \<not> is_not_None ext then Inr None
         else
           let ext_key = py_format W (the ext) @ ''/'' @ py_format W (the sfx);
               json_key = ''json/'' @ py_format W (the sfx);
               (payloads, ancestors) =
                 ancestry_loop file_data json_key ext_key file_ents (dirname bf) [] []
           in if payloads = [] then Inr None
              else
                let js_file = snd (last payloads);
                    s1 = add_all [FileAssociation js_file (path bf) ''Metadata'',
                                  FileAssociation (path bf) js_file ''Metadata''] s
                in case consolidate (rev payloads) [] of
                     Inl err \<Rightarrow> Inl err
                   | Inr file_md \<Rightarrow>
                       let s2 = add_chain (map snd payloads) s1;
                           s3 = add_chain ancestors s2;
                           (all_entities', s4) = md_tags_loop bf file_md (all_entities, s3)
                       in Inr (Some (all_entities', s4)))"

text \<open>What lines 171 to 265 make of the registry and the session, for one file.\<close>

definition index_metadata_file ::
  "world \<Rightarrow> file_data \<Rightarrow> bidsfile \<Rightarrow> entity dict \<times> session \<Rightarrow>
     error + (entity dict \<times> session)" where
  "index_metadata_file W file_data bf st =
     (case index_metadata_body W file_data bf st of
        Inl err \<Rightarrow> Inl err
      | Inr None \<Rightarrow> Inr st
      | Inr (Some st') \<Rightarrow> Inr st')"

text \<open>
  The second loop (lines 170 to 268): after the body of a file that was not left through
  \<^verbatim>\<open>continue\<close>, the pending records are committed when there are 1000 of them or more.
\<close>

fun index_metadata_files ::
  "world \<Rightarrow> file_data \<Rightarrow> bidsfile list \<Rightarrow> entity dict \<times> session \<Rightarrow>
     error + (entity dict \<times> session)" where
  "index_metadata_files W file_data [] st = Inr st"
| "index_metadata_files W file_data (bf # bfs) st =
     (case index_metadata_body W file_data bf st of
        Inl err \<Rightarrow> Inl err
      | Inr None \<Rightarrow> index_metadata_files W file_data bfs st
      | Inr (Some (all_entities', s4)) \<Rightarrow>
          (case (if new s4 \<ge> 1000 then commit s4 else Inr s4) of
             Inl err \<Rightarrow> Inl err
           | Inr s5 \<Rightarrow> index_metadata_files W file_data bfs (all_entities', s5)))"

text \<open>
  \<^verbatim>\<open>_index_metadata(layout)\<close>; \<open>index_metadata_run\<close> also returns the local
  \<^verbatim>\<open>all_entities\<close> as it stands at the end.
\<close>

definition index_metadata_run :: "world \<Rightarrow> layout \<Rightarrow> session \<Rightarrow> error + (entity dict \<times> session)" where
  "index_metadata_run W L s =
     (let all_files = layout_get s;
          all_entities = fold (\<lambda>c acc. dict_update acc (entities c)) (dict_values (config L)) []
      in case build_file_data W s all_files Map.empty of
           Inl err \<Rightarrow> Inl err
         | Inr file_data \<Rightarrow>
             (let filenames = filter (\<lambda>bf. \<not> suffix ''.json'' (path bf)) all_files in
              case index_metadata_files W file_data filenames (all_entities, s) of
                Inl err \<Rightarrow> Inl err
              | Inr (all_entities', s') \<Rightarrow>
                  (case commit s' of
                     Inl err \<Rightarrow> Inl err
                   | Inr s'' \<Rightarrow> Inr (all_entities', s''))))"

definition index_metadata :: "world \<Rightarrow> layout \<Rightarrow> session \<Rightarrow> error + session" where
  "index_metadata W L s =
     (case index_metadata_run W L s of Inl err \<Rightarrow> Inl err | Inr (_, s') \<Rightarrow> Inr s')"

subsection \<open>\<^verbatim>\<open>index_layout\<close>\<close>

text \<open>
  \<^verbatim>\<open>index_layout(layout, force_index, index_metadata)\<close> on the dataset whose root
  directory lists as \<open>tree\<close>, from the session \<open>s\<close> of the layout. \<open>top_force\<close> is the
  truth value of the argument \<^verbatim>\<open>force_index\<close>.
\<close>

definition index_layout ::
  "world \<Rightarrow> layout \<Rightarrow> bool \<Rightarrow> bool \<Rightarrow> dirtree \<Rightarrow> session \<Rightarrow> error + session" where
  "index_layout W L top_force with_metadata tree s =
     (let root_path = root L;
          config0 = dict_values (config L)
      in case index_dir W L top_force root_path config0 None top_force tree s of
           Inl err \<Rightarrow> Inl err
         | Inr s' \<Rightarrow> if with_metadata then index_metadata W L s' else Inr s')"

subsection \<open>Notions used in the statements\<close>

text \<open>
  What the ancestry walk of lines 171 to 219 finds for a file: \<^verbatim>\<open>payloads\<close> and
  \<^verbatim>\<open>ancestors\<close>, or nothing when the file lacks a suffix or an extension (line 176).
\<close>

definition ancestry_of ::
  "world \<Rightarrow> file_data \<Rightarrow> session \<Rightarrow> bidsfile \<Rightarrow>
     ((json dict option \<times> string) list \<times> string list) option" where
  "ancestry_of W file_data s bf =
     (let file_ents0 = file_entities s bf;
          (sfx, file_ents1) = dict_pop file_ents0 ''suffix'';
          (ext, file_ents) = dict_pop file_ents1 ''extension''
      in if \<not> is_not_None sfx \<or> \<not> is_not_None ext then None
         else Some (ancestry_loop file_data (''json/'' @ py_format W (the sfx))
                      (py_format W (the ext) @ ''/'' @ py_format W (the sfx))
                      file_ents (dirname bf) [] []))"

text \<open>
  The consolidation in the words of the spec (section 4.4, step 4): the payloads, given
  in visitation order, are applied from the farthest visited directory toward the
  closest, each overwriting key by key what is there.
\<close>

definition spec_overwrite :: "(string \<rightharpoonup> json) \<Rightarrow> json dict \<Rightarrow> (string \<rightharpoonup> json)" where
  "spec_overwrite m payload = foldl (\<lambda>acc (k, v). acc(k \<mapsto> v)) m payload"

definition spec_consolidate :: "json dict list \<Rightarrow> (string \<rightharpoonup> json)" where
  "spec_consolidate visited = foldl spec_overwrite Map.empty (rev visited)"


subsection \<open>Example datasets\<close>

text \<open>Concrete entities, layouts and trees, on which the theorems below are instantiated.\<close>

definition ex_subject :: entity where
  "ex_subject = \<lparr>name = ''subject'', mandatory = True, dtype = ''str'', is_metadata = False,
     match_file = (\<lambda>bf. Some ''01'')\<rparr>"
definition ex_session :: entity where
  "ex_session = \<lparr>name = ''session'', mandatory = True, dtype = ''str'', is_metadata = False,
     match_file = (\<lambda>bf. None)\<rparr>"
definition ex_run :: entity where
  "ex_run = \<lparr>name = ''run'', mandatory = False, dtype = ''int'', is_metadata = False,
     match_file = (\<lambda>bf. Some ''2'')\<rparr>"
definition ex_open_layout :: layout where
  "ex_open_layout = \<lparr>root = ''/r'', config_filename = ''layout_config.json'', force_index = [],
     config = [], validate_file = (\<lambda>_. True), validate_dir = (\<lambda>_. True)\<rparr>"


text \<open>
  A dataset with a sidecar \<^verbatim>\<open>{a: 1, b: 2}\<close> at the root and a sidecar \<^verbatim>\<open>{b: 3}\<close> in the
  subdirectory \<^verbatim>\<open>s\<close>, next to a data file; every file has the suffix \<^verbatim>\<open>T\<close>.
\<close>

definition ex_suffix :: entity where
  "ex_suffix = \<lparr>name = ''suffix'', mandatory = False, dtype = ''str'', is_metadata = False,
     match_file = (\<lambda>bf. Some ''T'')\<rparr>"

definition ex_extension :: entity where
  "ex_extension = \<lparr>name = ''extension'', mandatory = False, dtype = ''str'', is_metadata = False,
     match_file = (\<lambda>bf. if suffix ''.json'' (path bf) then Some ''json'' else Some ''nii'')\<rparr>"

definition ex_config :: config where
  "ex_config = \<lparr>entities = [(''suffix'', ex_suffix), (''extension'', ex_extension)]\<rparr>"

definition ex_layout :: layout where
  "ex_layout = \<lparr>root = ''/r'', config_filename = ''layout_config.json'', force_index = [],
     config = [(''bids'', ex_config)], validate_file = (\<lambda>_. True), validate_dir = (\<lambda>_. True)\<rparr>"

definition ex_world :: world where
  "ex_world = \<lparr>path_exists = (\<lambda>_. False), config_load = (\<lambda>_. Inl ConfigLoadError),
     json_load = (\<lambda>p. if p = ''/r/T.json'' then Inr [(''a'', JNum 1), (''b'', JNum 2)]
                       else if p = ''/r/s/T.json'' then Inr [(''b'', JNum 3)]
                       else Inl JSONDecodeError),
     format_other = (\<lambda>_. ''?'')\<rparr>"


text \<open>The session after the walk of that dataset, and the \<^verbatim>\<open>file_data\<close> built from it.\<close>

definition ex_walked :: session where
  "ex_walked =
     \<lparr>files = [BIDSFile ''/r/T.json'', BIDSFile ''/r/s/T.json'', BIDSFile ''/r/s/x.nii''],
      tags = [Tag (BIDSFile ''/r/T.json'') ex_suffix (JStr ''T'') (Some ''str''),
              Tag (BIDSFile ''/r/T.json'') ex_extension (JStr ''json'') (Some ''str''),
              Tag (BIDSFile ''/r/s/T.json'') ex_suffix (JStr ''T'') (Some ''str''),
              Tag (BIDSFile ''/r/s/T.json'') ex_extension (JStr ''json'') (Some ''str''),
              Tag (BIDSFile ''/r/s/x.nii'') ex_suffix (JStr ''T'') (Some ''str''),
              Tag (BIDSFile ''/r/s/x.nii'') ex_extension (JStr ''nii'') (Some ''str'')],
      ents = [], associations = [], new = 0\<rparr>"

definition ex_file_data :: file_data where
  "ex_file_data =
     [''json/T'' \<mapsto>
        [''/r'' \<mapsto> [([], Some [(''a'', JNum 1), (''b'', JNum 2)], ''/r/T.json'')],
         ''/r/s'' \<mapsto> [([], Some [(''b'', JNum 3)], ''/r/s/T.json'')]],
      ''nii/T'' \<mapsto> [''/r/s'' \<mapsto> [([], None, ''/r/s/x.nii'')]]]"


text \<open>A dataset of one data file and no sidecar.\<close>

definition ex_lonely_walked :: session where
  "ex_lonely_walked =
     \<lparr>files = [BIDSFile ''/r/x.nii''],
      tags = [Tag (BIDSFile ''/r/x.nii'') ex_suffix (JStr ''T'') (Some ''str''),
              Tag (BIDSFile ''/r/x.nii'') ex_extension (JStr ''nii'') (Some ''str'')],
      ents = [], associations = [], new = 0\<rparr>"

definition ex_lonely_file_data :: file_data where
  "ex_lonely_file_data = [''nii/T'' \<mapsto> [''/r'' \<mapsto> [([], None, ''/r/x.nii'')]]]"

text \<open>
  A layout whose force-index pattern matches every path and whose validators accept
  every path, and a layout whose force-index pattern matches the directory \<^verbatim>\<open>/r/d\<close> only
  and whose validators reject every path.
\<close>

definition ex_forcing_layout :: layout where
  "ex_forcing_layout = \<lparr>root = ''/r'', config_filename = ''layout_config.json'',
     force_index = [\<lambda>_. True], config = [(''bids'', ex_config)],
     validate_file = (\<lambda>_. True), validate_dir = (\<lambda>_. True)\<rparr>"

definition ex_strict_layout :: layout where
  "ex_strict_layout = \<lparr>root = ''/r'', config_filename = ''layout_config.json'',
     force_index = [\<lambda>p. p = ''/r/d''], config = [(''bids'', ex_config)],
     validate_file = (\<lambda>_. False), validate_dir = (\<lambda>_. False)\<rparr>"

text \<open>
  A dataset with one sidecar \<^verbatim>\<open>{a: 1}\<close> at the root and two data files in the subdirectory
  \<^verbatim>\<open>s\<close>. Under \<open>ex_layout\<close> the two data files have the same entities.
\<close>

definition ex_shared_world :: world where
  "ex_shared_world = \<lparr>path_exists = (\<lambda>_. False), config_load = (\<lambda>_. Inl ConfigLoadError),
     json_load = (\<lambda>p. if p = ''/r/T.json'' then Inr [(''a'', JNum 1)] else Inl JSONDecodeError),
     format_other = (\<lambda>_. ''?'')\<rparr>"

definition ex_shared_tree :: dirtree where
  "ex_shared_tree = Dir [''T.json''] [(''s'', Dir [''x.nii'', ''y.nii''] [])]"

text \<open>
  The same dataset under a layout with an entity \<^verbatim>\<open>subject\<close> that tells the two data files
  apart: the session after the walk, the \<^verbatim>\<open>file_data\<close>, the registry and the session after
  the loop body on \<^verbatim>\<open>x.nii\<close>, and the session at the end of the run.
\<close>

definition ex_pair_subject :: entity where
  "ex_pair_subject = \<lparr>name = ''subject'', mandatory = False, dtype = ''str'', is_metadata = False,
     match_file = (\<lambda>bf. if path bf = ''/r/s/x.nii'' then Some ''01''
                         else if path bf = ''/r/s/y.nii'' then Some ''02'' else None)\<rparr>"

definition ex_pair_config :: config where
  "ex_pair_config = \<lparr>entities = [(''subject'', ex_pair_subject), (''suffix'', ex_suffix),
     (''extension'', ex_extension)]\<rparr>"

definition ex_pair_layout :: layout where
  "ex_pair_layout = \<lparr>root = ''/r'', config_filename = ''layout_config.json'', force_index = [],
     config = [(''bids'', ex_pair_config)], validate_file = (\<lambda>_. True),
     validate_dir = (\<lambda>_. True)\<rparr>"

definition ex_pair_walked :: session where
  "ex_pair_walked =
     \<lparr>files = [BIDSFile ''/r/T.json'', BIDSFile ''/r/s/x.nii'', BIDSFile ''/r/s/y.nii''],
      tags = [Tag (BIDSFile ''/r/T.json'') ex_suffix (JStr ''T'') (Some ''str''),
              Tag (BIDSFile ''/r/T.json'') ex_extension (JStr ''json'') (Some ''str''),
              Tag (BIDSFile ''/r/s/x.nii'') ex_pair_subject (JStr ''01'') (Some ''str''),
              Tag (BIDSFile ''/r/s/x.nii'') ex_suffix (JStr ''T'') (Some ''str''),
              Tag (BIDSFile ''/r/s/x.nii'') ex_extension (JStr ''nii'') (Some ''str''),
              Tag (BIDSFile ''/r/s/y.nii'') ex_pair_subject (JStr ''02'') (Some ''str''),
              Tag (BIDSFile ''/r/s/y.nii'') ex_suffix (JStr ''T'') (Some ''str''),
              Tag (BIDSFile ''/r/s/y.nii'') ex_extension (JStr ''nii'') (Some ''str'')],
      ents = [], associations = [], new = 0\<rparr>"

definition ex_pair_file_data :: file_data where
  "ex_pair_file_data =
     [''json/T'' \<mapsto> [''/r'' \<mapsto> [([], Some [(''a'', JNum 1)], ''/r/T.json'')]],
      ''nii/T'' \<mapsto> [''/r/s'' \<mapsto> [([(''subject'', JStr ''01'')], None, ''/r/s/x.nii''),
                              ([(''subject'', JStr ''02'')], None, ''/r/s/y.nii'')]]]"

definition ex_pair_registry :: "entity dict" where
  "ex_pair_registry = entities ex_pair_config @ [(''a'', Entity ''a'' True)]"

definition ex_pair_first :: session where
  "ex_pair_first =
     ex_pair_walked
       \<lparr>tags := tags ex_pair_walked @
          [Tag (BIDSFile ''/r/s/x.nii'') (Entity ''a'' True) (JNum 1) None],
        ents := [Entity ''a'' True],
        associations :=
          [FileAssociation ''/r/T.json'' ''/r/s/x.nii'' ''Metadata'',
           FileAssociation ''/r/s/x.nii'' ''/r/T.json'' ''Metadata''],
        new := 4\<rparr>"

definition ex_pair_final :: session where
  "ex_pair_final =
     ex_pair_walked
       \<lparr>tags := tags ex_pair_walked @
          [Tag (BIDSFile ''/r/s/x.nii'') (Entity ''a'' True) (JNum 1) None,
           Tag (BIDSFile ''/r/s/y.nii'') (Entity ''a'' True) (JNum 1) None],
        ents := [Entity ''a'' True],
        associations :=
          [FileAssociation ''/r/T.json'' ''/r/s/x.nii'' ''Metadata'',
           FileAssociation ''/r/s/x.nii'' ''/r/T.json'' ''Metadata'',
           FileAssociation ''/r/T.json'' ''/r/s/y.nii'' ''Metadata'',
           FileAssociation ''/r/s/y.nii'' ''/r/T.json'' ''Metadata''],
        new := 0\<rparr>"

text \<open>
  A dataset of one data file and one sidecar next to it, whose only key is \<^verbatim>\<open>suffix\<close>,
  the name of an entity that the file name is tagged with.
\<close>

definition ex_clash_world :: world where
  "ex_clash_world = \<lparr>path_exists = (\<lambda>_. False), config_load = (\<lambda>_. Inl ConfigLoadError),
     json_load = (\<lambda>p. if p = ''/r/T.json'' then Inr [(''suffix'', JStr ''Z'')]
                       else Inl JSONDecodeError),
     format_other = (\<lambda>_. ''?'')\<rparr>"

definition ex_clash_tree :: dirtree where
  "ex_clash_tree = Dir [''T.json'', ''x.nii''] []"

section \<open>Entity extraction\<close>

lemma extract_loops_equal:
  "extract_entities_loop bf es mv = index_file_match_loop bf es mv"
  by (induction es arbitrary: mv) (simp_all add: Let_def)

text \<open>
  C9: for every file and every ordered entity map, the module-level helper
  \<^verbatim>\<open>_extract_entities\<close> computes the same mapping from names to (entity, value) as the
  loop written inside \<^verbatim>\<open>_index_file\<close>.
\<close>

theorem extract_entities_eq_inline: "extract_entities bf E = index_file_match_vals bf E"
  by (simp add: extract_entities_def index_file_match_vals_def extract_loops_equal)

theorem extract_entities_eq_inline_witness:
  "extract_entities (BIDSFile ''/r/f'')
     [(''subject'', ex_subject), (''session'', ex_session), (''run'', ex_run)] =
   [(''subject'', (ex_subject, ''01''))] \<and>
   index_file_match_vals (BIDSFile ''/r/f'')
     [(''subject'', ex_subject), (''session'', ex_session), (''run'', ex_run)] =
   [(''subject'', (ex_subject, ''01''))]"
proof -
  have "extract_entities (BIDSFile ''/r/f'')
     [(''subject'', ex_subject), (''session'', ex_session), (''run'', ex_run)] =
     [(''subject'', (ex_subject, ''01''))]"
    by (simp add: extract_entities_def dict_values_def ex_subject_def ex_session_def)
  then show ?thesis
    using extract_entities_eq_inline [of "BIDSFile ''/r/f''"
        "[(''subject'', ex_subject), (''session'', ex_session), (''run'', ex_run)]"]
    by simp
qed

lemma match_loop_no_stop:
  assumes "distinct (map name es)" "name ` set es \<inter> fst ` set mv = {}"
    and "\<forall>e \<in> set es. match_file e bf \<noteq> None \<or> \<not> mandatory e"
  shows "index_file_match_loop bf es mv =
          mv @ map (\<lambda>e. (name e, (e, the (match_file e bf)))) (filter (\<lambda>e. match_file e bf \<noteq> None) es)"
  using assms
proof (induction es arbitrary: mv)
  case Nil
  then show ?case by simp
next
  case (Cons e es)
  show ?case
  proof (cases "match_file e bf")
    case None
    with Cons.prems have "\<not> mandatory e" by simp
    moreover have "index_file_match_loop bf es mv =
          mv @ map (\<lambda>e. (name e, (e, the (match_file e bf)))) (filter (\<lambda>e. match_file e bf \<noteq> None) es)"
      using Cons.prems by (intro Cons.IH) auto
    ultimately show ?thesis using None by simp
  next
    case (Some m)
    have fresh: "name e \<notin> fst ` set mv" using Cons.prems(2) by auto
    then have upd: "AList.update (name e) (e, m) mv = mv @ [(name e, (e, m))]"
      by (induction mv) auto
    have "index_file_match_loop bf es (mv @ [(name e, (e, m))]) =
          (mv @ [(name e, (e, m))]) @ map (\<lambda>e. (name e, (e, the (match_file e bf)))) (filter (\<lambda>e. match_file e bf \<noteq> None) es)"
      using Cons.prems by (intro Cons.IH) auto
    then show ?thesis using Some upd by simp
  qed
qed

lemma match_loop_stop:
  assumes "\<forall>e \<in> set es. match_file e bf \<noteq> None \<or> \<not> mandatory e"
    and "mandatory B" "match_file B bf = None"
  shows "index_file_match_loop bf (es @ B # rest) mv = index_file_match_loop bf es mv"
  using assms by (induction es arbitrary: mv) (auto simp add: Let_def)

lemma fold_add_tag_tags:
  "tags (fold (\<lambda>(_, (ent, v)) acc. add_tag (Tag bf ent (JStr v) (Some (dtype ent))) acc) mv s) =
     tags s @ map (\<lambda>(_, (ent, v)). Tag bf ent (JStr v) (Some (dtype ent))) mv"
  by (induction mv arbitrary: s) (auto simp add: add_tag_def)

lemma fold_add_tag_files:
  "files (fold (\<lambda>(_, (ent, v)) acc. add_tag (Tag bf ent (JStr v) (Some (dtype ent))) acc) mv s) = files s"
  by (induction mv arbitrary: s) (auto simp add: add_tag_def)

text \<open>
  C4: when the entities before \<open>B\<close> in iteration order all match or are optional, \<open>A\<close>
  among them matches the file, and \<open>B\<close> is mandatory and does not match, then
  \<^verbatim>\<open>_index_file\<close> still creates the file record, its tags contain the tag of \<open>A\<close>, and
  none of them is a tag of \<open>B\<close> or of an entity after \<open>B\<close>. Entity names are distinct,
  as the keys of the entity dict are; the file is one that passes the validity test.
\<close>

theorem index_file_stops_at_mandatory:
  assumes valid: "top_force \<or> validate_file L (os_path_join dirpath f)"
    and bf: "bf = BIDSFile (os_path_join dirpath f)"
    and order: "dict_values E = before @ B # after"
    and names: "distinct (map name (dict_values E))"
    and first: "\<forall>e \<in> set before. match_file e bf \<noteq> None \<or> \<not> mandatory e"
    and A: "A \<in> set before" "match_file A bf = Some v"
    and B: "mandatory B" "match_file B bf = None"
  shows "\<exists>s' ts. index_file L top_force f dirpath E s = (Some bf, s') \<and>
           files s' = files s @ [bf] \<and> tags s' = tags s @ ts \<and>
           Tag bf A (JStr v) (Some (dtype A)) \<in> set ts \<and>
           (\<forall>t \<in> set ts. name (entity t) \<notin> name ` set (B # after))"
proof -
  let ?mk = "\<lambda>(_ :: string, (ent, v)). Tag bf ent (JStr v) (Some (dtype ent))"
  let ?hit = "filter (\<lambda>e. match_file e bf \<noteq> None) before"
  have d: "distinct (map name before)" using names order by simp
  have mv: "index_file_match_vals bf E = map (\<lambda>e. (name e, (e, the (match_file e bf)))) ?hit"
    unfolding index_file_match_vals_def order
    using match_loop_stop [OF first B, of after "[]"] match_loop_no_stop [OF d _ first, of "[]"]
    by simp
  let ?ts = "map ?mk (map (\<lambda>e. (name e, (e, the (match_file e bf)))) ?hit)"
  define s' where "s' = fold (\<lambda>(_, (ent, v)) acc. add_tag (Tag bf ent (JStr v) (Some (dtype ent))) acc)
         (index_file_match_vals bf E) (add_file bf s)"
  have res: "index_file L top_force f dirpath E s = (Some bf, s')"
    using valid bf by (auto simp add: index_file_def Let_def s'_def)
  have fs: "files s' = files s @ [bf]"
    by (simp add: s'_def fold_add_tag_files add_file_def)
  have tg: "tags s' = tags s @ ?ts"
    by (simp add: s'_def fold_add_tag_tags mv add_file_def)
  have ts: "?ts = map (\<lambda>e. Tag bf e (JStr (the (match_file e bf))) (Some (dtype e))) ?hit"
    by simp
  have inA: "Tag bf A (JStr v) (Some (dtype A)) \<in> set ?ts"
    unfolding ts using A by force
  have disj: "name e \<notin> name ` set (B # after)" if "e \<in> set before" for e
  proof -
    have "distinct (map name before @ name B # map name after)"
      using names order by simp
    moreover have "name e \<in> set (map name before)" using that by simp
    ultimately have "name e \<notin> set (name B # map name after)"
      unfolding distinct_append by blast
    then show ?thesis by simp
  qed
  have noB: "\<forall>t \<in> set ?ts. name (entity t) \<notin> name ` set (B # after)"
    unfolding ts using disj by (auto simp add: Tag_def)
  from res fs tg inA noB show ?thesis by blast
qed

theorem index_file_stops_at_mandatory_witness:
  "\<exists>s' ts. index_file ex_open_layout False ''f'' ''/r''
        [(''subject'', ex_subject), (''session'', ex_session), (''run'', ex_run)] empty_session
        = (Some (BIDSFile ''/r/f''), s') \<and>
      files s' = [BIDSFile ''/r/f''] \<and> tags s' = ts \<and>
      Tag (BIDSFile ''/r/f'') ex_subject (JStr ''01'') (Some ''str'') \<in> set ts \<and>
      (\<forall>t \<in> set ts. name (entity t) \<noteq> ''session'' \<and> name (entity t) \<noteq> ''run'')"
  using index_file_stops_at_mandatory [of False ex_open_layout "''/r''" "''f''" "BIDSFile ''/r/f''"
      "[(''subject'', ex_subject), (''session'', ex_session), (''run'', ex_run)]"
      "[ex_subject]" ex_session "[ex_run]" ex_subject "''01''" empty_session]
  by (simp add: ex_open_layout_def os_path_join_def dict_values_def ex_subject_def ex_session_def
      ex_run_def empty_session_def suffix_to_prefix)


section \<open>The metadata pass, file by file\<close>

lemma add_chain_frame:
  "files (add_chain ps s) = files s \<and> tags (add_chain ps s) = tags s \<and> ents (add_chain ps s) = ents s"
  by (induction ps s rule: add_chain.induct) (simp_all add: add_all_def)

lemma add_chain_associations:
  "\<exists>as. associations (add_chain ps s) = associations s @ as \<and>
        (\<forall>a \<in> set as. kind a = ''Child'' \<or> kind a = ''Parent'')"
proof (induction ps s rule: add_chain.induct)
  case (1 a b rest s)
  then obtain as where
    "associations (add_chain (b # rest)
        (add_all [FileAssociation a b ''Child'', FileAssociation b a ''Parent''] s)) =
      associations (add_all [FileAssociation a b ''Child'', FileAssociation b a ''Parent''] s) @ as"
    "\<forall>a \<in> set as. kind a = ''Child'' \<or> kind a = ''Parent''"
    by blast
  then show ?case
    by (intro exI [of _ "[FileAssociation a b ''Child'', FileAssociation b a ''Parent''] @ as"])
       (simp add: add_all_def FileAssociation_def)
qed simp_all

lemma update_fresh: "k \<notin> fst ` set al \<Longrightarrow> AList.update k v al = al @ [(k, v)]"
  by (induction al) auto

lemma md_tags_loop_frame:
  "md_tags_loop bf md (ae, s) = (ae', s') \<Longrightarrow>
     files s' = files s \<and> associations s' = associations s"
proof (induction md arbitrary: ae s)
  case Nil
  then show ?case by simp
next
  case (Cons kv md)
  obtain k v where kv: "kv = (k, v)" by (cases kv)
  show ?case
  proof (cases "k \<in> set (keys ae)")
    case True
    with Cons.prems kv
    have "md_tags_loop bf md (ae, add_tag (Tag bf (the (map_of ae k)) v None) s) = (ae', s')"
      by simp
    from Cons.IH [OF this] show ?thesis by (simp add: add_tag_def)
  next
    case False
    with Cons.prems kv
    have "md_tags_loop bf md (AList.update k (Entity k True) ae,
            add_tag (Tag bf (the (map_of (AList.update k (Entity k True) ae) k)) v None)
              (add_entity (the (map_of (AList.update k (Entity k True) ae) k)) s)) = (ae', s')"
      by (simp add: Let_def)
    from Cons.IH [OF this] show ?thesis by (simp add: add_tag_def add_entity_def)
  qed
qed

lemma md_tags_loop_registry:
  "md_tags_loop bf md (ae, s) = (ae', s') \<Longrightarrow>
     \<exists>created. ents s' = ents s @ created \<and> ae' = ae @ map (\<lambda>e. (name e, e)) created \<and>
       (\<forall>e \<in> set created. e = Entity (name e) True \<and> name e \<in> set (keys md) \<and> name e \<notin> set (keys ae)) \<and>
       distinct (map name created)"
proof (induction md arbitrary: ae s)
  case Nil
  then show ?case by simp
next
  case (Cons kv md)
  obtain k v where kv: "kv = (k, v)" by (cases kv)
  show ?case
  proof (cases "k \<in> set (keys ae)")
    case True
    with Cons.prems kv
    have "md_tags_loop bf md (ae, add_tag (Tag bf (the (map_of ae k)) v None) s) = (ae', s')"
      by simp
    from Cons.IH [OF this] show ?thesis by (auto simp add: add_tag_def kv keys_def)
  next
    case False
    let ?ae = "ae @ [(k, Entity k True)]"
    have upd: "AList.update k (Entity k True) ae = ?ae"
      using False by (simp add: update_fresh keys_def)
    with Cons.prems kv False
    have "md_tags_loop bf md (?ae,
            add_tag (Tag bf (the (map_of ?ae k)) v None)
              (add_entity (the (map_of ?ae k)) s)) = (ae', s')"
      by (simp add: Let_def)
    from Cons.IH [OF this] obtain created where c:
      "ents s' = ents (add_tag (Tag bf (the (map_of ?ae k)) v None)
              (add_entity (the (map_of ?ae k)) s)) @ created"
      "ae' = ?ae @ map (\<lambda>e. (name e, e)) created"
      "\<forall>e \<in> set created. e = Entity (name e) True \<and> name e \<in> set (keys md) \<and> name e \<notin> set (keys ?ae)"
      "distinct (map name created)"
      by blast
    have lk: "map_of ?ae k = Some (Entity k True)"
      using False by (simp add: map_add_Some_iff keys_def map_of_eq_None_iff)
    have nm: "name (Entity k True) = k" by (simp add: Entity_def)
    show ?thesis
      using c False lk nm
      by (intro exI [of _ "Entity k True # created"])
         (auto simp add: add_tag_def add_entity_def kv keys_def)
  qed
qed

lemma md_tags_loop_tags:
  "md_tags_loop bf md (ae, s) = (ae', s') \<Longrightarrow>
     tags s' = tags s @ map (\<lambda>(k, v). Tag bf (the (map_of ae' k)) v None) md"
proof (induction md arbitrary: ae s)
  case Nil
  then show ?case by simp
next
  case (Cons kv md)
  obtain k v where kv: "kv = (k, v)" by (cases kv)
  define ae1 where "ae1 = (if k \<notin> set (keys ae) then AList.update k (Entity k True) ae else ae)"
  define s1 where "s1 = (if k \<notin> set (keys ae) then add_entity (the (map_of ae1 k)) s else s)"
  have step: "md_tags_loop bf md (ae1, add_tag (Tag bf (the (map_of ae1 k)) v None) s1) = (ae', s')"
    using Cons.prems kv by (simp add: ae1_def s1_def Let_def split: if_splits)
  have inae1: "k \<in> fst ` set ae1"
    by (auto simp add: ae1_def keys_def AList.dom_update)
  from md_tags_loop_registry [OF step] obtain created where
    c: "ae' = ae1 @ map (\<lambda>e. (name e, e)) created" by blast
  have keep: "map_of ae' k = map_of ae1 k"
    using inae1 unfolding c by (auto simp add: map_add_def map_of_eq_None_iff split: option.splits)
  have "tags s1 = tags s" by (simp add: s1_def add_entity_def)
  with Cons.IH [OF step] keep show ?case
    by (simp add: kv add_tag_def)
qed




lemma ex_ancestry:
  "ancestry_of ex_world ex_file_data ex_walked (BIDSFile ''/r/s/x.nii'') =
     Some ([(Some [(''b'', JNum 3)], ''/r/s/T.json''), (Some [(''a'', JNum 1), (''b'', JNum 2)], ''/r/T.json'')],
           [''/r/s/x.nii''])"
  by (simp add: ancestry_of_def ancestry_loop.simps ex_world_def ex_walked_def ex_file_data_def file_entities_def Tag_def BIDSFile_def
      os_path_dirname_def dict_pop_def is_not_None_def py_format_def Let_def fd_get_def ents_match_def keys_def
      ex_suffix_def ex_extension_def)


lemma index_metadata_body_skip:
  "ancestry_of W fd s bf = None \<Longrightarrow> index_metadata_body W fd bf (ae, s) = Inr None"
  by (auto simp add: ancestry_of_def index_metadata_body_def Let_def split: prod.splits if_splits)

lemma index_metadata_body_empty:
  "ancestry_of W fd s bf = Some ([], ancestors) \<Longrightarrow>
     index_metadata_body W fd bf (ae, s) = Inr None"
  by (auto simp add: ancestry_of_def index_metadata_body_def Let_def split: prod.splits if_splits)

lemma index_metadata_body_found:
  assumes "ancestry_of W fd s bf = Some (payloads, ancestors)" "payloads \<noteq> []"
  shows "index_metadata_body W fd bf (ae, s) =
     (case consolidate (rev payloads) [] of
        Inl err \<Rightarrow> Inl err
      | Inr file_md \<Rightarrow>
          Inr (Some (md_tags_loop bf file_md (ae,
                     add_chain ancestors (add_chain (map snd payloads)
                       (add_all [FileAssociation (snd (last payloads)) (path bf) ''Metadata'',
                                 FileAssociation (path bf) (snd (last payloads)) ''Metadata''] s))))))"
  using assms
  by (auto simp add: ancestry_of_def index_metadata_body_def Let_def split: prod.splits if_splits sum.splits)

lemma index_metadata_file_skip:
  "ancestry_of W fd s bf = None \<Longrightarrow> index_metadata_file W fd bf (ae, s) = Inr (ae, s)"
  by (simp add: index_metadata_file_def index_metadata_body_skip)

lemma index_metadata_file_empty:
  "ancestry_of W fd s bf = Some ([], ancestors) \<Longrightarrow>
     index_metadata_file W fd bf (ae, s) = Inr (ae, s)"
  by (simp add: index_metadata_file_def index_metadata_body_empty)

lemma index_metadata_file_found:
  assumes "ancestry_of W fd s bf = Some (payloads, ancestors)" "payloads \<noteq> []"
  shows "index_metadata_file W fd bf (ae, s) =
     (case consolidate (rev payloads) [] of
        Inl err \<Rightarrow> Inl err
      | Inr file_md \<Rightarrow>
          Inr (md_tags_loop bf file_md (ae,
                 add_chain ancestors (add_chain (map snd payloads)
                   (add_all [FileAssociation (snd (last payloads)) (path bf) ''Metadata'',
                             FileAssociation (path bf) (snd (last payloads)) ''Metadata''] s)))))"
  by (simp add: index_metadata_file_def index_metadata_body_found [OF assms] split: sum.splits)

lemma consolidate_all_payloads:
  "\<forall>p \<in> set ps. fst p \<noteq> None \<Longrightarrow>
     consolidate ps md = Inr (fold (\<lambda>p acc. dict_update acc (the (fst p))) ps md)"
  by (induction ps arbitrary: md) (auto split: option.splits)

lemma map_of_dict_update: "map_of (dict_update m d) = spec_overwrite (map_of m) d"
  unfolding dict_update_def spec_overwrite_def
  by (induction d arbitrary: m) (auto simp add: AList.update_conv')

lemma distinct_dict_update: "distinct (map fst m) \<Longrightarrow> distinct (map fst (dict_update m d))"
  unfolding dict_update_def
  by (induction d arbitrary: m) (auto simp add: AList.distinct_update)

lemma map_of_fold_dict_update:
  "map_of (fold (\<lambda>p acc. dict_update acc (the (fst p))) ps md) =
     foldl spec_overwrite (map_of md) (map (\<lambda>p. the (fst p)) ps)"
  by (induction ps arbitrary: md) (simp_all add: map_of_dict_update)

lemma distinct_fold_dict_update:
  "distinct (map fst md) \<Longrightarrow>
     distinct (map fst (fold (\<lambda>p acc. dict_update acc (the (fst p))) ps md))"
  by (induction ps arbitrary: md) (simp_all add: distinct_dict_update)


text \<open>
  The order of \<^verbatim>\<open>payloads\<close>: what was collected before, then the matching sidecars of the
  directory at hand, then those of its parent and so on outwards.
\<close>

lemma ancestry_loop_step:
  "ancestry_loop fd jk ek fe d pl an =
     (if os_path_dirname d = d
      then (pl @ map (\<lambda>(js_ents, js_md, js_path). (js_md, js_path))
              (filter (\<lambda>(js_ents, js_md, js_path). ents_match js_ents fe) (fd_get fd jk d)),
            an @ map (\<lambda>(ents_d, _, p). p)
              (filter (\<lambda>(ents_d, _, p). ents_match ents_d fe) (fd_get fd ek d)))
      else ancestry_loop fd jk ek fe (os_path_dirname d)
           (pl @ map (\<lambda>(js_ents, js_md, js_path). (js_md, js_path))
              (filter (\<lambda>(js_ents, js_md, js_path). ents_match js_ents fe) (fd_get fd jk d)))
           (an @ map (\<lambda>(ents_d, _, p). p)
              (filter (\<lambda>(ents_d, _, p). ents_match ents_d fe) (fd_get fd ek d))))"
  by (subst ancestry_loop.simps) (simp add: Let_def)


lemma ancestry_loop_last:
  assumes "os_path_dirname d = d"
  shows "fst (ancestry_loop fd jk ek fe d pl an) =
     pl @ map (\<lambda>(js_ents, js_md, js_path). (js_md, js_path))
       (filter (\<lambda>(js_ents, js_md, js_path). ents_match js_ents fe) (fd_get fd jk d))"
  unfolding ancestry_loop_step [of fd jk ek fe d pl an] if_P [OF assms] fst_conv ..

lemma ancestry_loop_up:
  assumes "os_path_dirname d \<noteq> d"
  shows "ancestry_loop fd jk ek fe d pl an =
     ancestry_loop fd jk ek fe (os_path_dirname d)
       (pl @ map (\<lambda>(js_ents, js_md, js_path). (js_md, js_path))
          (filter (\<lambda>(js_ents, js_md, js_path). ents_match js_ents fe) (fd_get fd jk d)))
       (an @ map (\<lambda>(ents_d, _, p). p)
          (filter (\<lambda>(ents_d, _, p). ents_match ents_d fe) (fd_get fd ek d)))"
  by (rule trans [OF ancestry_loop_step [of fd jk ek fe d pl an] if_not_P [OF assms]])

lemma ancestry_loop_acc:
  fixes pl :: "(json dict option \<times> string) list" and an :: "string list"
  shows "\<forall>pl' an'. fst (ancestry_loop fd jk ek fe d pl' an') =
     pl' @ fst (ancestry_loop fd jk ek fe d [] [])"
proof (induction fd jk ek fe d pl an rule: ancestry_loop.induct)
  case (1 fd jk ek fe d pl an)
  let ?here = "map (\<lambda>(js_ents, js_md, js_path). (js_md, js_path))
      (filter (\<lambda>(js_ents, js_md, js_path). ents_match js_ents fe) (fd_get fd jk d))"
  let ?sibs = "map (\<lambda>(ents_d, _, p). p)
      (filter (\<lambda>(ents_d, _, p). ents_match ents_d fe) (fd_get fd ek d))"
  show ?case
  proof (cases "os_path_dirname d = d")
    case True
    show ?thesis
      unfolding ancestry_loop_last [OF True] by simp
  next
    case False
    have IH0: "\<forall>pl' an'. fst (ancestry_loop fd jk ek fe (os_path_dirname d) pl' an') =
             pl' @ fst (ancestry_loop fd jk ek fe (os_path_dirname d) [] [])"
      by (rule "1.IH" [OF refl refl refl refl refl False])
    have IH: "fst (ancestry_loop fd jk ek fe (os_path_dirname d) pl' an') =
             pl' @ fst (ancestry_loop fd jk ek fe (os_path_dirname d) [] [])" for pl' an'
      by (rule IH0 [THEN spec, THEN spec])
    show ?thesis
    proof (intro allI)
      fix pl' an'
      have "fst (ancestry_loop fd jk ek fe d pl' an') =
            fst (ancestry_loop fd jk ek fe (os_path_dirname d) (pl' @ ?here) (an' @ ?sibs))"
        by (simp only: ancestry_loop_up [OF False])
      also have "\<dots> = (pl' @ ?here) @ fst (ancestry_loop fd jk ek fe (os_path_dirname d) [] [])"
        by (rule IH)
      also have "\<dots> = pl' @ fst (ancestry_loop fd jk ek fe (os_path_dirname d) ?here ?sibs)"
        using IH [of ?here ?sibs] by simp
      also have "fst (ancestry_loop fd jk ek fe (os_path_dirname d) ?here ?sibs) =
            fst (ancestry_loop fd jk ek fe d [] [])"
        using ancestry_loop_up [OF False, of fd jk ek fe "[]" "[]"] by simp
      finally show "fst (ancestry_loop fd jk ek fe d pl' an') =
            pl' @ fst (ancestry_loop fd jk ek fe d [] [])" .
    qed
  qed
qed

lemma ancestry_loop_outward:
  "fst (ancestry_loop fd jk ek fe d [] []) =
     map (\<lambda>(js_ents, js_md, js_path). (js_md, js_path))
       (filter (\<lambda>(js_ents, js_md, js_path). ents_match js_ents fe) (fd_get fd jk d)) @
     (if os_path_dirname d = d then []
      else fst (ancestry_loop fd jk ek fe (os_path_dirname d) [] []))"
proof (cases "os_path_dirname d = d")
  case True
  show ?thesis
    unfolding ancestry_loop_last [OF True] if_P [OF True] by simp
next
  case False
  let ?here = "map (\<lambda>(js_ents, js_md, js_path). (js_md, js_path))
      (filter (\<lambda>(js_ents, js_md, js_path). ents_match js_ents fe) (fd_get fd jk d))"
  let ?sibs = "map (\<lambda>(ents_d, _, p). p)
      (filter (\<lambda>(ents_d, _, p). ents_match ents_d fe) (fd_get fd ek d))"
  have "fst (ancestry_loop fd jk ek fe d [] []) =
        fst (ancestry_loop fd jk ek fe (os_path_dirname d) ?here ?sibs)"
    using ancestry_loop_up [OF False, of fd jk ek fe "[]" "[]"] by simp
  also have "\<dots> = ?here @ fst (ancestry_loop fd jk ek fe (os_path_dirname d) [] [])"
    by (rule ancestry_loop_acc [THEN spec, THEN spec])
  finally show ?thesis unfolding if_not_P [OF False] .
qed


text \<open>
  C2: for a file whose ancestry walk found at least one sidecar (each carrying its
  payload), the body of the metadata loop succeeds, the tags it adds to the file are one
  per item of the consolidated metadata, and the consolidated metadata is, as a map, what
  the spec's consolidation yields: the payloads applied in reverse visitation order, the
  farthest first and the file's own directory last, overwriting key by key. On the
  example the sidecars \<^verbatim>\<open>{a: 1, b: 2}\<close> at the root and \<^verbatim>\<open>{b: 3}\<close> in the subdirectory give
  \<^verbatim>\<open>{a: 1, b: 3}\<close>.
\<close>

theorem consolidated_metadata_closest_wins:
  assumes anc: "ancestry_of W fd s bf = Some (payloads, ancestors)"
    and ne: "payloads \<noteq> []"
    and some: "\<forall>p \<in> set payloads. fst p \<noteq> None"
  shows "\<exists>ae' s' file_md.
           index_metadata_file W fd bf (ae, s) = Inr (ae', s') \<and>
           tags s' = tags s @ map (\<lambda>(k, v). Tag bf (the (map_of ae' k)) v None) file_md \<and>
           distinct (keys file_md) \<and>
           map_of file_md = spec_consolidate (map (\<lambda>p. the (fst p)) payloads)"
proof -
  let ?file_md = "fold (\<lambda>p acc. dict_update acc (the (fst p))) (rev payloads) []"
  let ?s3 = "add_chain ancestors (add_chain (map snd payloads)
               (add_all [FileAssociation (snd (last payloads)) (path bf) ''Metadata'',
                         FileAssociation (path bf) (snd (last payloads)) ''Metadata''] s))"
  have cons: "consolidate (rev payloads) [] = Inr ?file_md"
    using some by (intro consolidate_all_payloads) simp
  obtain ae' s4 where loop: "md_tags_loop bf ?file_md (ae, ?s3) = (ae', s4)"
    by (cases "md_tags_loop bf ?file_md (ae, ?s3)")
  have res: "index_metadata_file W fd bf (ae, s) = Inr (ae', s4)"
    using index_metadata_file_found [OF anc ne, of ae] cons loop by simp
  have "tags ?s3 = tags s"
    by (simp add: add_chain_frame add_all_def)
  with md_tags_loop_tags [OF loop]
  have tg: "tags s4 = tags s @ map (\<lambda>(k, v). Tag bf (the (map_of ae' k)) v None) ?file_md"
    by simp
  have dist: "distinct (keys ?file_md)"
    unfolding keys_def by (rule distinct_fold_dict_update) simp
  have "map_of ?file_md = spec_consolidate (map (\<lambda>p. the (fst p)) payloads)"
    by (simp add: map_of_fold_dict_update spec_consolidate_def rev_map)
  with res tg dist show ?thesis by blast
qed

theorem consolidated_metadata_closest_wins_witness:
  "\<exists>ae' s' file_md.
      index_metadata_file ex_world ex_file_data (BIDSFile ''/r/s/x.nii'')
        (entities ex_config, ex_walked) = Inr (ae', s') \<and>
      tags s' = tags ex_walked @
        map (\<lambda>(k, v). Tag (BIDSFile ''/r/s/x.nii'') (the (map_of ae' k)) v None) file_md \<and>
      distinct (keys file_md) \<and>
      map_of file_md = [''a'' \<mapsto> JNum 1, ''b'' \<mapsto> JNum 3]"
proof -
  have "spec_consolidate [[(''b'', JNum 3)], [(''a'', JNum 1), (''b'', JNum 2)]] =
          [''a'' \<mapsto> JNum 1, ''b'' \<mapsto> JNum 3]"
    by (simp add: spec_consolidate_def spec_overwrite_def)
  with consolidated_metadata_closest_wins [OF ex_ancestry, of "entities ex_config"]
  show ?thesis by simp
qed

text \<open>
  C3: for a file whose \<^verbatim>\<open>payloads\<close> list is not empty after the ancestry walk, the
  associations added for it hold exactly one pair of kind \<^verbatim>\<open>Metadata\<close>, one edge in each
  direction, between the file and the sidecar appended last to \<^verbatim>\<open>payloads\<close>: on the
  example the sidecar of the root, not the one next to the file.
\<close>

theorem metadata_association_with_last_payload:
  assumes anc: "ancestry_of W fd s bf = Some (payloads, ancestors)"
    and ne: "payloads \<noteq> []"
    and some: "\<forall>p \<in> set payloads. fst p \<noteq> None"
  shows "\<exists>ae' s' added.
           index_metadata_file W fd bf (ae, s) = Inr (ae', s') \<and>
           associations s' = associations s @ added \<and>
           filter (\<lambda>a. kind a = ''Metadata'') added =
             [FileAssociation (snd (last payloads)) (path bf) ''Metadata'',
              FileAssociation (path bf) (snd (last payloads)) ''Metadata'']"
proof -
  let ?file_md = "fold (\<lambda>p acc. dict_update acc (the (fst p))) (rev payloads) []"
  let ?pair = "[FileAssociation (snd (last payloads)) (path bf) ''Metadata'',
                FileAssociation (path bf) (snd (last payloads)) ''Metadata'']"
  let ?s1 = "add_all ?pair s"
  let ?s2 = "add_chain (map snd payloads) ?s1"
  let ?s3 = "add_chain ancestors ?s2"
  have cons: "consolidate (rev payloads) [] = Inr ?file_md"
    using some by (intro consolidate_all_payloads) simp
  obtain ae' s4 where loop: "md_tags_loop bf ?file_md (ae, ?s3) = (ae', s4)"
    by (cases "md_tags_loop bf ?file_md (ae, ?s3)")
  have res: "index_metadata_file W fd bf (ae, s) = Inr (ae', s4)"
    using index_metadata_file_found [OF anc ne, of ae] cons loop by simp
  obtain as2 where as2: "associations ?s2 = associations ?s1 @ as2"
      "\<forall>a \<in> set as2. kind a = ''Child'' \<or> kind a = ''Parent''"
    using add_chain_associations [of "map snd payloads" ?s1] by blast
  obtain as3 where as3: "associations ?s3 = associations ?s2 @ as3"
      "\<forall>a \<in> set as3. kind a = ''Child'' \<or> kind a = ''Parent''"
    using add_chain_associations [of ancestors ?s2] by blast
  have s5: "associations s4 = associations s @ ?pair @ as2 @ as3"
    using md_tags_loop_frame [OF loop] as2(1) as3(1) by (simp add: add_all_def)
  have "filter (\<lambda>a. kind a = ''Metadata'') (as2 @ as3) = []"
    using as2(2) as3(2) by (auto simp add: filter_empty_conv)
  then have "filter (\<lambda>a. kind a = ''Metadata'') (?pair @ as2 @ as3) = ?pair"
    by (simp add: FileAssociation_def)
  with res s5 show ?thesis by blast
qed

theorem metadata_association_with_last_payload_witness:
  "\<exists>ae' s' added.
      index_metadata_file ex_world ex_file_data (BIDSFile ''/r/s/x.nii'')
        (entities ex_config, ex_walked) = Inr (ae', s') \<and>
      associations s' = added \<and>
      filter (\<lambda>a. kind a = ''Metadata'') added =
        [FileAssociation ''/r/T.json'' ''/r/s/x.nii'' ''Metadata'',
         FileAssociation ''/r/s/x.nii'' ''/r/T.json'' ''Metadata'']"
proof -
  have "associations ex_walked = []" "path (BIDSFile ''/r/s/x.nii'') = ''/r/s/x.nii''"
    by (simp_all add: ex_walked_def BIDSFile_def)
  with metadata_association_with_last_payload [OF ex_ancestry, of "entities ex_config"]
  show ?thesis by simp
qed


text \<open>
  C8: for a file whose ancestry walk finds no matching sidecar, the body of the metadata
  loop leaves the session and the entity registry as they are: no association, no tag
  and no entity is added, and the file record and its tags stay.
\<close>

theorem no_sidecar_nothing_added:
  assumes "ancestry_of W fd s bf = Some ([], ancestors)"
  shows "index_metadata_file W fd bf (ae, s) = Inr (ae, s)"
  using assms by (rule index_metadata_file_empty)

lemma ex_lonely_ancestry:
  "ancestry_of ex_world ex_lonely_file_data ex_lonely_walked (BIDSFile ''/r/x.nii'') =
     Some ([], [''/r/x.nii''])"
  by (simp add: ancestry_of_def ancestry_loop.simps ex_world_def ex_lonely_walked_def
      ex_lonely_file_data_def file_entities_def Tag_def BIDSFile_def
      os_path_dirname_def dict_pop_def is_not_None_def py_format_def Let_def fd_get_def
      ents_match_def keys_def ex_suffix_def ex_extension_def)

theorem no_sidecar_nothing_added_witness:
  "index_metadata_file ex_world ex_lonely_file_data (BIDSFile ''/r/x.nii'')
     (entities ex_config, ex_lonely_walked) = Inr (entities ex_config, ex_lonely_walked)"
  using ex_lonely_ancestry by (rule no_sidecar_nothing_added)

lemma ex_lonely_walk:
  "index_dir ex_world ex_layout False ''/r'' [ex_config] None False (Dir [''x.nii''] []) empty_session
     = Inr ex_lonely_walked"
  by (simp add: ex_world_def ex_layout_def ex_config_def empty_session_def ex_lonely_walked_def
      os_path_join_def dict_update_def index_file_def Let_def index_file_match_vals_def dict_values_def
      add_file_def add_tag_def commit_def tag_key_def ex_suffix_def ex_extension_def suffix_to_prefix
      check_path_matches_patterns_def BIDSFile_def Tag_def os_path_dirname_def)

lemma ex_lonely_build:
  "build_file_data ex_world ex_lonely_walked (files ex_lonely_walked) Map.empty =
     Inr ex_lonely_file_data"
  by (simp add: ex_world_def ex_lonely_walked_def ex_lonely_file_data_def file_entities_def Tag_def
      BIDSFile_def os_path_dirname_def dict_pop_def is_not_None_def py_format_def fd_append_def
      Let_def ex_suffix_def ex_extension_def)

lemma index_layout_unfold:
  "index_layout W L top_force with_metadata tree s =
     (case index_dir W L top_force (root L) (dict_values (config L)) None top_force tree s of
        Inl err \<Rightarrow> Inl err
      | Inr s' \<Rightarrow> if with_metadata then index_metadata W L s' else Inr s')"
  by (simp add: index_layout_def Let_def del: index_dir.simps)

lemma ex_lonely_full_run:
  "index_layout ex_world ex_layout False True (Dir [''x.nii''] []) empty_session = Inr ex_lonely_walked"
proof -
  have cfg: "dict_values (config ex_layout) = [ex_config]" "root ex_layout = ''/r''"
    by (simp_all add: ex_layout_def dict_values_def)
  have fl: "filter (\<lambda>bf. \<not> suffix ''.json'' (path bf)) (files ex_lonely_walked) = [BIDSFile ''/r/x.nii'']"
    by (simp add: ex_lonely_walked_def BIDSFile_def suffix_to_prefix)
  have ae: "dict_update [] (entities ex_config) = entities ex_config"
    by (simp add: dict_update_def ex_config_def)
  have c: "commit ex_lonely_walked = Inr ex_lonely_walked"
    by (simp add: commit_def tag_key_def ex_lonely_walked_def BIDSFile_def Tag_def
        ex_suffix_def ex_extension_def)
  show ?thesis
    by (simp add: index_layout_unfold cfg ex_lonely_walk index_metadata_def index_metadata_run_def
        layout_get_def ex_lonely_build fl ae index_metadata_body_empty [OF ex_lonely_ancestry] c
        del: index_dir.simps)
qed



section \<open>The walk\<close>

lemma join_derivatives_prefix:
  assumes "prefix ''derivatives'' d"
  shows "prefix (os_path_join r ''derivatives'') (os_path_join r d)"
proof -
  from assms obtain rest where d: "d = ''derivatives'' @ rest"
    by (auto simp add: prefix_def)
  show ?thesis
    unfolding d by (simp add: os_path_join_def)
qed

lemma index_subdirs_skips:
  assumes "\<And>d. P d \<Longrightarrow> prefix ''derivatives'' d"
  shows "index_subdirs W L top_force (root L) cfg fi dirnames s =
         index_subdirs W L top_force (root L) cfg fi
           (filter (\<lambda>(d, sub). \<not> P d) dirnames) s"
proof (induction dirnames arbitrary: fi s)
  case Nil
  then show ?case by simp
next
  case (Cons a dirnames)
  obtain d sub where a: "a = (d, sub)" by (cases a)
  show ?case
  proof (cases "P d")
    case True
    then show ?thesis
      using Cons.IH [of fi s] assms [of d] by (simp add: a join_derivatives_prefix)
  next
    case False
    then show ?thesis
      using Cons.IH by (simp add: a Let_def split: sum.splits)
  qed
qed

lemma index_dir_root_skips:
  assumes "\<And>d. P d \<Longrightarrow> prefix ''derivatives'' d"
  shows "index_dir W L top_force (root L) cfg parent fi (Dir filenames dirnames) s =
         index_dir W L top_force (root L) cfg parent fi
           (Dir filenames (filter (\<lambda>(d, sub). \<not> P d) dirnames)) s"
  using index_subdirs_skips [of P W L top_force, OF assms]
  by (simp add: Let_def split: sum.splits)

text \<open>
  C6: a top-level indexing call gives the same result on a dataset and on the dataset
  without the directories named \<^verbatim>\<open>derivatives\<close> directly under its root, whatever the
  validators, the force-index patterns and the \<^verbatim>\<open>force_index\<close> argument are: such a
  directory is not visited and no file in it gets a record.
\<close>

theorem derivatives_never_visited:
  "index_layout W L top_force with_metadata (Dir filenames dirnames) s =
   index_layout W L top_force with_metadata
     (Dir filenames (filter (\<lambda>(d, sub). d \<noteq> ''derivatives'') dirnames)) s"
  using index_dir_root_skips [of "\<lambda>d. d = ''derivatives''" W L top_force]
  by (simp add: index_layout_unfold del: index_dir.simps)

theorem derivatives_never_visited_witness:
  "index_layout ex_world ex_forcing_layout True False
     (Dir [] [(''derivatives'', Dir [''x.nii''] [])]) empty_session = Inr empty_session"
proof -
  have "index_layout ex_world ex_forcing_layout True False (Dir [] []) empty_session =
          Inr empty_session"
    by (simp add: index_layout_def ex_world_def ex_forcing_layout_def os_path_join_def
        commit_def empty_session_def dict_values_def)
  then show ?thesis
    using derivatives_never_visited [of ex_world ex_forcing_layout True False "[]"
        "[(''derivatives'', Dir [''x.nii''] [])]" empty_session]
    by simp
qed

text \<open>
  C10: the exclusion tests a prefix of the path. A top-level indexing call gives the same
  result on a dataset and on the dataset without the directories directly under its root
  whose names begin with \<^verbatim>\<open>derivatives\<close>, such as \<^verbatim>\<open>derivatives2\<close> or \<^verbatim>\<open>derivatives_old\<close>: they
  are skipped and give no file record.
\<close>

theorem derivatives_prefix_skipped:
  "index_layout W L top_force with_metadata (Dir filenames dirnames) s =
   index_layout W L top_force with_metadata
     (Dir filenames (filter (\<lambda>(d, sub). \<not> prefix ''derivatives'' d) dirnames)) s"
  using index_dir_root_skips [of "\<lambda>d. prefix ''derivatives'' d" W L top_force]
  by (simp add: index_layout_unfold del: index_dir.simps)

theorem derivatives_prefix_skipped_witness:
  "index_layout ex_world ex_forcing_layout True False
     (Dir [] [(''derivatives2'', Dir [''x.nii''] []), (''derivatives_old'', Dir [''y.nii''] [])])
     empty_session = Inr empty_session"
proof -
  have "index_layout ex_world ex_forcing_layout True False (Dir [] []) empty_session =
          Inr empty_session"
    by (simp add: index_layout_def ex_world_def ex_forcing_layout_def os_path_join_def
        commit_def empty_session_def dict_values_def)
  then show ?thesis
    using derivatives_prefix_skipped [of ex_world ex_forcing_layout True False "[]"
        "[(''derivatives2'', Dir [''x.nii''] []), (''derivatives_old'', Dir [''y.nii''] [])]"
        empty_session]
    by simp
qed

text \<open>
  The \<^verbatim>\<open>force_index\<close> parameter of \<^verbatim>\<open>index_dir\<close> is assigned and passed on, and never
  read: the result of a walk does not depend on it.
\<close>

lemma index_subdirs_ignores_walk_flag:
  assumes sub: "\<And>d sub p cfg par a b s. (d, sub) \<in> set dirnames \<Longrightarrow>
      index_dir W L top_force p cfg par a sub s = index_dir W L top_force p cfg par b sub s"
  shows "index_subdirs W L top_force dp cfg fi dirnames s =
         index_subdirs W L top_force dp cfg fi' dirnames s"
  using sub
proof (induction dirnames arbitrary: fi fi' s)
  case Nil
  then show ?case by simp
next
  case (Cons a ds)
  obtain d sub where a: "a = (d, sub)" by (cases a)
  let ?d = "os_path_join dp d"
  have E: "index_dir W L top_force ?d cfg (Some dp) fi sub s =
           index_dir W L top_force ?d cfg (Some dp) fi' sub s"
    by (rule Cons.prems [of d]) (simp add: a)
  have R: "index_subdirs W L top_force dp cfg fi ds s' =
           index_subdirs W L top_force dp cfg fi' ds s'" for s'
  proof (rule Cons.IH)
    fix d1 sub1 p1 cfg1 par1 a1 b1 s1
    assume "(d1, sub1) \<in> set ds"
    then have "(d1, sub1) \<in> set (a # ds)" by simp
    then show "index_dir W L top_force p1 cfg1 par1 a1 sub1 s1 =
               index_dir W L top_force p1 cfg1 par1 b1 sub1 s1"
      by (rule Cons.prems)
  qed
  show ?case
    unfolding a index_subdirs.simps Let_def E R ..
qed

lemma index_dir_ignores_walk_flag:
  "index_dir W L top_force p cfg parent fi tree s =
     index_dir W L top_force p cfg parent fi' tree s"
proof (induction tree arbitrary: p cfg parent fi fi' s)
  case (Dir filenames dirnames)
  have H: "index_subdirs W L top_force dp c fi dirnames s' =
        index_subdirs W L top_force dp c fi' dirnames s'" for dp c s'
  proof (rule index_subdirs_ignores_walk_flag)
    fix d sub p cfg par a b s
    assume "(d, sub) \<in> set dirnames"
    then show "index_dir W L top_force p cfg par a sub s = index_dir W L top_force p cfg par b sub s"
      by (intro Dir.IH [of "(d, sub)" sub]) auto
  qed
  show ?case
    unfolding index_dir.simps Let_def H ..
qed

text \<open>
  C1: the directory \<^verbatim>\<open>/r/d\<close> matches a force-index pattern, so \<^verbatim>\<open>index_dir\<close> is called on
  it with \<^verbatim>\<open>force_index=True\<close>; its file \<^verbatim>\<open>f\<close> fails validation, and \<^verbatim>\<open>index_layout\<close> was
  called without \<^verbatim>\<open>force_index\<close>. No file record is created: neither by the whole run, nor
  by the call of \<^verbatim>\<open>index_dir\<close> on \<^verbatim>\<open>/r/d\<close> with the flag set.
\<close>

theorem forced_directory_file_skipped:
  "index_layout ex_world ex_strict_layout False False (Dir [] [(''d'', Dir [''f''] [])])
     empty_session = Inr empty_session \<and>
   index_dir ex_world ex_strict_layout False ''/r/d'' [ex_config] (Some ''/r'') True
     (Dir [''f''] []) empty_session = Inr empty_session"
  by (simp add: index_layout_def ex_world_def ex_strict_layout_def os_path_join_def
      commit_def empty_session_def dict_values_def check_path_matches_patterns_def
      index_file_def dict_update_def ex_config_def Let_def suffix_to_prefix)

section \<open>The registry of entities during the metadata pass\<close>

lemma md_tags_loop_keys:
  "md_tags_loop bf md (ae, s) = (ae', s') \<Longrightarrow> set (keys md) \<union> set (keys ae) \<subseteq> set (keys ae')"
proof (induction md arbitrary: ae s)
  case Nil
  then show ?case by (auto simp add: keys_def)
next
  case (Cons kv md)
  obtain k v where kv: "kv = (k, v)" by (cases kv)
  define ae1 where "ae1 = (if k \<notin> set (keys ae) then AList.update k (Entity k True) ae else ae)"
  define s1 where "s1 = (if k \<notin> set (keys ae) then add_entity (the (map_of ae1 k)) s else s)"
  have step: "md_tags_loop bf md (ae1, add_tag (Tag bf (the (map_of ae1 k)) v None) s1) = (ae', s')"
    using Cons.prems kv by (simp add: ae1_def s1_def Let_def split: if_splits)
  have "set (keys ae1) = insert k (set (keys ae))"
    by (auto simp add: ae1_def keys_def AList.dom_update)
  with Cons.IH [OF step] show ?case
    by (auto simp add: kv keys_def)
qed

lemma disjoint_imagesI:
  assumes "\<forall>e \<in> B. f e \<notin> f ` A"
  shows "f ` A \<inter> f ` B = {}"
proof -
  have "False" if "n \<in> f ` A" "n \<in> f ` B" for n
  proof -
    from that(2) obtain e where e: "e \<in> B" "n = f e" by (rule imageE)
    from assms e(1) have "f e \<notin> f ` A" by (rule bspec)
    with that(1) e(2) show False by simp
  qed
  then show ?thesis by (intro equals0I) (erule IntE)
qed

lemma map_of_append_left: "k \<in> fst ` set xs \<Longrightarrow> map_of (xs @ ys) k = map_of xs k"
  by (auto simp add: map_add_def map_of_eq_None_iff split: option.splits)

lemma map_of_append_right:
  assumes "k \<notin> fst ` set xs"
  shows "map_of (xs @ ys) k = map_of ys k"
proof -
  from assms have "map_of xs k = None" by (simp add: map_of_eq_None_iff)
  then show ?thesis by (simp add: map_add_def)
qed

lemma filter_unique:
  "distinct (map f xs) \<Longrightarrow> x \<in> set xs \<Longrightarrow> filter (\<lambda>e. f e = f x) xs = [x]"
proof (induction xs)
  case Nil
  then show ?case by simp
next
  case (Cons a xs)
  show ?case
  proof (cases "a = x")
    case True
    from Cons.prems(1) True have "f x \<notin> f ` set xs" by simp
    then have "\<forall>e \<in> set xs. f e \<noteq> f x" by (metis imageI)
    then have "filter (\<lambda>e. f e = f x) xs = []"
      by (simp add: filter_empty_conv)
    with True show ?thesis by simp
  next
    case False
    with Cons.prems have x: "x \<in> set xs" and d: "distinct (map f xs)" and "f a \<notin> f ` set xs"
      by auto
    then have "f a \<noteq> f x" by auto
    with Cons.IH [OF d x] show ?thesis by simp
  qed
qed

text \<open>
  What a stretch of the pass does to the registry and to the entities of the session:
  both grow by the same entities, each made by \<^verbatim>\<open>Entity(md_key, is_metadata=True)\<close> under a
  key that the registry did not hold.
\<close>

lemma grown_registry:
  assumes "ents s' = ents s @ created" "ae' = ae @ map (\<lambda>e. (name e, e)) created"
    "\<forall>e \<in> set created. e = Entity (name e) True \<and> name e \<notin> set (keys ae)"
    "distinct (map name created)"
  shows "map_of ae k = Some e \<Longrightarrow> map_of ae' k = Some e"
    and "k \<in> set (keys ae) \<Longrightarrow> filter (\<lambda>e. name e = k) created = []"
    and "distinct (map name (ents s)) \<Longrightarrow> name ` set (ents s) \<subseteq> set (keys ae) \<Longrightarrow>
           distinct (map name (ents s')) \<and> name ` set (ents s') \<subseteq> set (keys ae')"
proof -
  show "map_of ae' k = Some e" if "map_of ae k = Some e"
  proof -
    from that have "k \<in> fst ` set ae"
      by (metis map_of_eq_None_iff option.distinct(1))
    then show ?thesis
      unfolding assms(2) using that by (simp add: map_of_append_left)
  qed
  show "filter (\<lambda>e. name e = k) created = []" if "k \<in> set (keys ae)"
    using that assms(3) by (auto simp add: filter_empty_conv)
  show "distinct (map name (ents s')) \<and> name ` set (ents s') \<subseteq> set (keys ae')"
    if d: "distinct (map name (ents s))" and sub: "name ` set (ents s) \<subseteq> set (keys ae)"
  proof -
    have "\<forall>e \<in> set created. name e \<notin> name ` set (ents s)"
      using assms(3) sub by auto
    then have "name ` set (ents s) \<inter> name ` set created = {}"
      by (rule disjoint_imagesI)
    then have "distinct (map name (ents s'))"
      using d assms(4) by (simp add: assms(1))
    moreover have "keys ae' = keys ae @ map name created"
      by (simp add: assms(2) keys_def comp_def)
    then have "name ` set (ents s') \<subseteq> set (keys ae')"
      using sub by (auto simp add: assms(1))
    ultimately show ?thesis ..
  qed
qed

lemma md_tags_loop_creates:
  assumes loop: "md_tags_loop bf md (ae, s) = (ae', s')"
    and k: "(k, v) \<in> set md" and unseen: "k \<notin> set (keys ae)"
  shows "\<exists>created. ents s' = ents s @ created \<and>
           filter (\<lambda>e. name e = k) created = [Entity k True] \<and>
           map_of ae' k = Some (Entity k True)"
proof -
  from md_tags_loop_registry [OF loop] obtain created where c:
    "ents s' = ents s @ created" "ae' = ae @ map (\<lambda>e. (name e, e)) created"
    "\<forall>e \<in> set created. e = Entity (name e) True \<and> name e \<in> set (keys md) \<and> name e \<notin> set (keys ae)"
    "distinct (map name created)"
    by blast
  have "k \<in> set (keys md)"
    using k by (force simp add: keys_def)
  with md_tags_loop_keys [OF loop] have "k \<in> set (keys ae')" by auto
  moreover have "keys ae' = keys ae @ map name created"
    by (simp add: c(2) keys_def comp_def)
  ultimately have "k \<in> name ` set created"
    using unseen by auto
  then obtain e where e: "e \<in> set created" "name e = k" by auto
  with c(3) have ek: "e = Entity k True" by auto
  have f: "filter (\<lambda>e'. name e' = k) created = [Entity k True]"
    using filter_unique [OF c(4) e(1)] e(2) ek by simp
  have here: "map_of (map (\<lambda>e. (name e, e)) created) k = Some e"
    using c(4) e by (intro map_of_is_SomeI) (auto simp add: comp_def)
  have "k \<notin> fst ` set ae"
    using unseen by (simp add: keys_def)
  then have "map_of (ae @ map (\<lambda>e. (name e, e)) created) k =
             map_of (map (\<lambda>e. (name e, e)) created) k"
    by (rule map_of_append_right)
  with here ek have "map_of ae' k = Some (Entity k True)"
    unfolding c(2) by (simp del: map_of_append)
  with c(1) f show ?thesis by blast
qed

lemma md_tags_loop_tag:
  assumes loop: "md_tags_loop bf md (ae, s) = (ae', s')" and k: "(k, v) \<in> set md"
  shows "Tag bf (the (map_of ae' k)) v None \<in> set (drop (length (tags s)) (tags s'))"
proof -
  have "Tag bf (the (map_of ae' k)) v None \<in>
          set (map (\<lambda>(k, v). Tag bf (the (map_of ae' k)) v None) md)"
    using k by force
  then show ?thesis
    by (simp add: md_tags_loop_tags [OF loop])
qed

lemma index_metadata_file_registry:
  assumes run: "index_metadata_file W fd bf (ae, s) = Inr (ae', s')"
  shows "\<exists>created.
      ents s' = ents s @ created \<and> ae' = ae @ map (\<lambda>e. (name e, e)) created \<and>
      (\<forall>e \<in> set created. e = Entity (name e) True \<and> name e \<notin> set (keys ae)) \<and>
      distinct (map name created)"
proof -
  have trivial: ?thesis if "ae' = ae" "s' = s"
    using that by (intro exI [of _ "[]"]) simp
  show ?thesis
  proof (cases "ancestry_of W fd s bf")
    case None
    with run index_metadata_file_skip [of W fd s bf ae] show ?thesis
      by (intro trivial) simp_all
  next
    case (Some pa)
    obtain payloads ancestors where pa: "pa = (payloads, ancestors)" by (cases pa)
    show ?thesis
    proof (cases "payloads = []")
      case True
      with run Some pa index_metadata_file_empty [of W fd s bf ancestors ae] show ?thesis
        by (intro trivial) simp_all
    next
      case False
      let ?s3 = "add_chain ancestors (add_chain (map snd payloads)
               (add_all [FileAssociation (snd (last payloads)) (path bf) ''Metadata'',
                         FileAssociation (path bf) (snd (last payloads)) ''Metadata''] s))"
      from run index_metadata_file_found [of W fd s bf payloads ancestors ae] Some pa False
      obtain file_md where loop: "md_tags_loop bf file_md (ae, ?s3) = (ae', s')"
        by (cases "consolidate (rev payloads) []") auto
      have fr: "ents ?s3 = ents s"
        by (simp add: add_chain_frame add_all_def)
      from md_tags_loop_registry [OF loop] show ?thesis
        unfolding fr by blast
    qed
  qed
qed

lemma index_metadata_files_Cons:
  assumes "index_metadata_files W fd (bf # bfs) (ae, s) = Inr (ae', s')"
  shows "\<exists>ae1 s4 s5. index_metadata_file W fd bf (ae, s) = Inr (ae1, s4) \<and>
           ents s5 = ents s4 \<and> index_metadata_files W fd bfs (ae1, s5) = Inr (ae', s')"
proof (cases "index_metadata_body W fd bf (ae, s)")
  case (Inl err)
  with assms show ?thesis by simp
next
  case (Inr r)
  show ?thesis
  proof (cases r)
    case None
    with Inr assms show ?thesis
      by (intro exI [of _ ae] exI [of _ s]) (simp add: index_metadata_file_def)
  next
    case (Some st)
    obtain ae1 s4 where st: "st = (ae1, s4)" by (cases st)
    show ?thesis
    proof (cases "new s4 \<ge> 1000")
      case True
      with Inr Some st assms obtain s5 where
        "commit s4 = Inr s5" "index_metadata_files W fd bfs (ae1, s5) = Inr (ae', s')"
        by (cases "commit s4") auto
      moreover from this(1) have "ents s5 = ents s4"
        by (auto simp add: commit_def split: if_splits)
      ultimately show ?thesis
        using Inr Some st
        by (intro exI [of _ ae1] exI [of _ s4] exI [of _ s5]) (simp add: index_metadata_file_def)
    next
      case False
      with Inr Some st assms show ?thesis
        by (intro exI [of _ ae1] exI [of _ s4]) (simp add: index_metadata_file_def)
    qed
  qed
qed

lemma index_metadata_files_registry:
  assumes "index_metadata_files W fd bfs (ae, s) = Inr (ae', s')"
  shows "\<exists>created.
      ents s' = ents s @ created \<and> ae' = ae @ map (\<lambda>e. (name e, e)) created \<and>
      (\<forall>e \<in> set created. e = Entity (name e) True \<and> name e \<notin> set (keys ae)) \<and>
      distinct (map name created)"
  using assms
proof (induction bfs arbitrary: ae s)
  case Nil
  then show ?case
    by (intro exI [of _ "[]"]) simp
next
  case (Cons bf bfs)
  from index_metadata_files_Cons [OF Cons.prems] obtain ae1 s4 s5 where
    step: "index_metadata_file W fd bf (ae, s) = Inr (ae1, s4)" and
    same: "ents s5 = ents s4" and
    rest: "index_metadata_files W fd bfs (ae1, s5) = Inr (ae', s')"
    by blast
  from index_metadata_file_registry [OF step] obtain created1 where one:
    "ents s4 = ents s @ created1" "ae1 = ae @ map (\<lambda>e. (name e, e)) created1"
    "\<forall>e \<in> set created1. e = Entity (name e) True \<and> name e \<notin> set (keys ae)"
    "distinct (map name created1)"
    by blast
  from Cons.IH [OF rest] obtain created2 where more:
    "ents s' = ents s5 @ created2" "ae' = ae1 @ map (\<lambda>e. (name e, e)) created2"
    "\<forall>e \<in> set created2. e = Entity (name e) True \<and> name e \<notin> set (keys ae1)"
    "distinct (map name created2)"
    by blast
  have keys1: "keys ae1 = keys ae @ map name created1"
    by (simp add: one(2) keys_def comp_def)
  have c: "ae' = ae @ map (\<lambda>e. (name e, e)) (created1 @ created2)"
    by (simp add: more(2) one(2))
  have "\<forall>e \<in> set created2. name e \<notin> name ` set created1"
    using more(3) keys1 by auto
  then have "name ` set created1 \<inter> name ` set created2 = {}"
    by (rule disjoint_imagesI)
  then have d: "distinct (map name (created1 @ created2))"
    using one(4) more(4) by simp
  have f: "\<forall>e \<in> set (created1 @ created2). e = Entity (name e) True \<and> name e \<notin> set (keys ae)"
    using one(3) more(3) keys1 by auto
  have "ents s' = ents s @ (created1 @ created2)"
    by (simp add: more(1) same one(1))
  with c d f show ?case by blast
qed

text \<open>
  C7: the body of the metadata loop runs for a file \<open>bf1\<close> whose consolidated metadata
  \<open>md1\<close> has a key \<open>k\<close> that the registry \<^verbatim>\<open>all_entities\<close> does not hold; the entities of the
  session have distinct names, all of them keys of the registry.
  Then the body returns without raising; it adds \<^verbatim>\<open>Entity(k, is_metadata=True)\<close> to the
  session, which then holds this one entity of the name \<open>k\<close>, and registers it under \<open>k\<close>;
  and the tag it adds to \<open>bf1\<close> for \<open>k\<close> is a tag of that entity. Whatever files \<open>mid\<close> the
  loop goes through next, for every later file \<open>bf2\<close> whose consolidated metadata has the
  key \<open>k\<close> the body returns without raising, the registry still holds the same entity
  under \<open>k\<close>, the tag added to \<open>bf2\<close> for \<open>k\<close> is a tag of it, and the session still holds
  this one entity of the name \<open>k\<close> and no two entities of one name, so that the store has
  no conflict of entities to raise.
\<close>

theorem metadata_entity_created_once:
  assumes anc1: "ancestry_of W fd s bf1 = Some (payloads1, ancestors1)"
    and ne1: "payloads1 \<noteq> []"
    and md1: "consolidate (rev payloads1) [] = Inr md1"
    and k1: "(k, v1) \<in> set md1"
    and unseen: "k \<notin> set (keys ae)"
    and reg: "distinct (map name (ents s))" "name ` set (ents s) \<subseteq> set (keys ae)"
  shows "\<exists>ae1 s1.
      index_metadata_file W fd bf1 (ae, s) = Inr (ae1, s1) \<and>
      map_of ae1 k = Some (Entity k True) \<and>
      filter (\<lambda>e. name e = k) (ents s1) = [Entity k True] \<and>
      Tag bf1 (Entity k True) v1 None \<in> set (drop (length (tags s)) (tags s1)) \<and>
      (\<forall>mid ae2 s2 bf2 payloads2 ancestors2 md2 v2.
         index_metadata_files W fd mid (ae1, s1) = Inr (ae2, s2) \<longrightarrow>
         ancestry_of W fd s2 bf2 = Some (payloads2, ancestors2) \<longrightarrow>
         payloads2 \<noteq> [] \<longrightarrow>
         consolidate (rev payloads2) [] = Inr md2 \<longrightarrow>
         (k, v2) \<in> set md2 \<longrightarrow>
         (\<exists>ae3 s3.
            index_metadata_file W fd bf2 (ae2, s2) = Inr (ae3, s3) \<and>
            map_of ae3 k = Some (Entity k True) \<and>
            filter (\<lambda>e. name e = k) (ents s3) = [Entity k True] \<and>
            Tag bf2 (Entity k True) v2 None \<in> set (drop (length (tags s2)) (tags s3)) \<and>
            distinct (map name (ents s3))))"
proof -
  let ?s3 = "add_chain ancestors1 (add_chain (map snd payloads1)
               (add_all [FileAssociation (snd (last payloads1)) (path bf1) ''Metadata'',
                         FileAssociation (path bf1) (snd (last payloads1)) ''Metadata''] s))"
  obtain ae1 s1 where loop1: "md_tags_loop bf1 md1 (ae, ?s3) = (ae1, s1)"
    by (cases "md_tags_loop bf1 md1 (ae, ?s3)")
  have fr1: "ents ?s3 = ents s" "tags ?s3 = tags s"
    by (simp_all add: add_chain_frame add_all_def)
  have step1: "index_metadata_file W fd bf1 (ae, s) = Inr (ae1, s1)"
    using index_metadata_file_found [OF anc1 ne1, of ae] md1 loop1 by simp
  from md_tags_loop_creates [OF loop1 k1 unseen] obtain created1 where c1:
    "ents s1 = ents s @ created1" "filter (\<lambda>e. name e = k) created1 = [Entity k True]"
    "map_of ae1 k = Some (Entity k True)"
    unfolding fr1 by blast
  have "\<forall>e \<in> set (ents s). name e \<noteq> k"
    using reg(2) unseen by auto
  then have "filter (\<lambda>e. name e = k) (ents s) = []"
    by (simp add: filter_empty_conv)
  with c1(1,2) have once1: "filter (\<lambda>e. name e = k) (ents s1) = [Entity k True]"
    by simp
  have tag1: "Tag bf1 (Entity k True) v1 None \<in> set (drop (length (tags s)) (tags s1))"
    using md_tags_loop_tag [OF loop1 k1] c1(3) by (simp add: fr1)
  from index_metadata_file_registry [OF step1] obtain cr1 where g1:
    "ents s1 = ents s @ cr1" "ae1 = ae @ map (\<lambda>e. (name e, e)) cr1"
    "\<forall>e \<in> set cr1. e = Entity (name e) True \<and> name e \<notin> set (keys ae)"
    "distinct (map name cr1)"
    by blast
  from grown_registry(3) [OF g1 reg]
  have inv1: "distinct (map name (ents s1))" "name ` set (ents s1) \<subseteq> set (keys ae1)"
    by simp_all
  have later: "\<exists>ae3 s3.
            index_metadata_file W fd bf2 (ae2, s2) = Inr (ae3, s3) \<and>
            map_of ae3 k = Some (Entity k True) \<and>
            filter (\<lambda>e. name e = k) (ents s3) = [Entity k True] \<and>
            Tag bf2 (Entity k True) v2 None \<in> set (drop (length (tags s2)) (tags s3)) \<and>
            distinct (map name (ents s3))"
    if mids: "index_metadata_files W fd mid (ae1, s1) = Inr (ae2, s2)"
      and anc2: "ancestry_of W fd s2 bf2 = Some (payloads2, ancestors2)"
      and ne2: "payloads2 \<noteq> []"
      and md2: "consolidate (rev payloads2) [] = Inr md2"
      and k2: "(k, v2) \<in> set md2"
    for mid ae2 s2 bf2 payloads2 ancestors2 md2 v2
  proof -
    from index_metadata_files_registry [OF mids] obtain cr2 where g2:
      "ents s2 = ents s1 @ cr2" "ae2 = ae1 @ map (\<lambda>e. (name e, e)) cr2"
      "\<forall>e \<in> set cr2. e = Entity (name e) True \<and> name e \<notin> set (keys ae1)"
      "distinct (map name cr2)"
      by blast
    have in1: "k \<in> set (keys ae1)"
      using c1(3) by (metis keys_def map_of_eq_None_iff option.distinct(1) set_map)
    have reg2: "map_of ae2 k = Some (Entity k True)"
      using c1(3) by (rule grown_registry(1) [OF g2])
    have none2: "filter (\<lambda>e. name e = k) cr2 = []"
      using in1 by (rule grown_registry(2) [OF g2])
    from grown_registry(3) [OF g2 inv1]
    have inv2: "distinct (map name (ents s2))" "name ` set (ents s2) \<subseteq> set (keys ae2)"
      by simp_all
    let ?t3 = "add_chain ancestors2 (add_chain (map snd payloads2)
               (add_all [FileAssociation (snd (last payloads2)) (path bf2) ''Metadata'',
                         FileAssociation (path bf2) (snd (last payloads2)) ''Metadata''] s2))"
    obtain ae3 s3 where loop2: "md_tags_loop bf2 md2 (ae2, ?t3) = (ae3, s3)"
      by (cases "md_tags_loop bf2 md2 (ae2, ?t3)")
    have fr2: "ents ?t3 = ents s2" "tags ?t3 = tags s2"
      by (simp_all add: add_chain_frame add_all_def)
    have step2: "index_metadata_file W fd bf2 (ae2, s2) = Inr (ae3, s3)"
      using index_metadata_file_found [OF anc2 ne2, of ae2] md2 loop2 by simp
    from index_metadata_file_registry [OF step2] obtain cr3 where g3:
      "ents s3 = ents s2 @ cr3" "ae3 = ae2 @ map (\<lambda>e. (name e, e)) cr3"
      "\<forall>e \<in> set cr3. e = Entity (name e) True \<and> name e \<notin> set (keys ae2)"
      "distinct (map name cr3)"
      by blast
    have in2: "k \<in> set (keys ae2)"
      using reg2 by (metis keys_def map_of_eq_None_iff option.distinct(1) set_map)
    have reg3: "map_of ae3 k = Some (Entity k True)"
      using reg2 by (rule grown_registry(1) [OF g3])
    have none3: "filter (\<lambda>e. name e = k) cr3 = []"
      using in2 by (rule grown_registry(2) [OF g3])
    from grown_registry(3) [OF g3 inv2]
    have inv3: "distinct (map name (ents s3))" by simp
    have once3: "filter (\<lambda>e. name e = k) (ents s3) = [Entity k True]"
      by (simp add: g3(1) g2(1) once1 none2 none3)
    have tag3: "Tag bf2 (Entity k True) v2 None \<in> set (drop (length (tags s2)) (tags s3))"
      using md_tags_loop_tag [OF loop2 k2] reg3 by (simp add: fr2)
    from step2 reg3 once3 tag3 inv3 show ?thesis by blast
  qed
  from step1 c1(3) once1 tag1 later show ?thesis by blast
qed

text \<open>
  The dataset with the sidecar \<^verbatim>\<open>{a: 1}\<close> at the root and the data files \<^verbatim>\<open>x.nii\<close> and \<^verbatim>\<open>y.nii\<close>
  of two subjects: the body of the loop on \<^verbatim>\<open>x.nii\<close> creates the entity \<^verbatim>\<open>a\<close>, the body on
  \<^verbatim>\<open>y.nii\<close> reuses it, and the run completes.
\<close>

lemma ex_pair_walk:
  "index_dir ex_shared_world ex_pair_layout False ''/r'' [ex_pair_config] None False ex_shared_tree
     empty_session = Inr ex_pair_walked"
  by (simp add: ex_shared_world_def ex_pair_layout_def ex_pair_config_def ex_shared_tree_def
      empty_session_def ex_pair_walked_def ex_pair_subject_def
      os_path_join_def dict_update_def index_file_def Let_def index_file_match_vals_def dict_values_def
      add_file_def add_tag_def commit_def tag_key_def ex_suffix_def ex_extension_def suffix_to_prefix
      check_path_matches_patterns_def BIDSFile_def Tag_def os_path_dirname_def)

lemma ex_pair_build:
  "build_file_data ex_shared_world ex_pair_walked (files ex_pair_walked) Map.empty =
     Inr ex_pair_file_data"
  by (simp add: ex_shared_world_def ex_pair_walked_def ex_pair_file_data_def file_entities_def
      Tag_def BIDSFile_def os_path_dirname_def dict_pop_def is_not_None_def py_format_def
      fd_append_def Let_def ex_suffix_def ex_extension_def ex_pair_subject_def)

lemma ex_pair_ancestry_x:
  "ancestry_of ex_shared_world ex_pair_file_data ex_pair_walked (BIDSFile ''/r/s/x.nii'') =
     Some ([(Some [(''a'', JNum 1)], ''/r/T.json'')], [''/r/s/x.nii''])"
  by (simp add: ancestry_of_def ancestry_loop.simps ex_shared_world_def ex_pair_walked_def
      ex_pair_file_data_def file_entities_def Tag_def BIDSFile_def
      os_path_dirname_def dict_pop_def is_not_None_def py_format_def Let_def fd_get_def
      ents_match_def keys_def ex_suffix_def ex_extension_def ex_pair_subject_def)

lemma ex_pair_ancestry_y:
  "ancestry_of ex_shared_world ex_pair_file_data ex_pair_first (BIDSFile ''/r/s/y.nii'') =
     Some ([(Some [(''a'', JNum 1)], ''/r/T.json'')], [''/r/s/y.nii''])"
  by (simp add: ancestry_of_def ancestry_loop.simps ex_shared_world_def ex_pair_walked_def
      ex_pair_first_def
      ex_pair_file_data_def file_entities_def Tag_def BIDSFile_def Entity_def
      os_path_dirname_def dict_pop_def is_not_None_def py_format_def Let_def fd_get_def
      ents_match_def keys_def ex_suffix_def ex_extension_def ex_pair_subject_def)

lemma ex_pair_body_x:
  "index_metadata_body ex_shared_world ex_pair_file_data (BIDSFile ''/r/s/x.nii'')
     (entities ex_pair_config, ex_pair_walked) = Inr (Some (ex_pair_registry, ex_pair_first))"
  unfolding index_metadata_body_found [OF ex_pair_ancestry_x, simplified]
  by (simp add: dict_update_def add_all_def keys_def ex_pair_config_def add_entity_def add_tag_def
      ex_pair_walked_def ex_pair_first_def ex_pair_registry_def BIDSFile_def Let_def)

lemma ex_pair_body_y:
  "index_metadata_body ex_shared_world ex_pair_file_data (BIDSFile ''/r/s/y.nii'')
     (ex_pair_registry, ex_pair_first) =
   Inr (Some (ex_pair_registry, ex_pair_final\<lparr>new := 7\<rparr>))"
  unfolding index_metadata_body_found [OF ex_pair_ancestry_y, simplified]
  by (simp add: dict_update_def add_all_def keys_def ex_pair_config_def add_entity_def add_tag_def
      ex_pair_walked_def ex_pair_first_def ex_pair_final_def ex_pair_registry_def BIDSFile_def Let_def)

lemma ex_pair_full_run:
  "index_layout ex_shared_world ex_pair_layout False True ex_shared_tree empty_session =
     Inr ex_pair_final"
proof -
  have cfg: "dict_values (config ex_pair_layout) = [ex_pair_config]" "root ex_pair_layout = ''/r''"
    by (simp_all add: ex_pair_layout_def dict_values_def)
  have fl: "filter (\<lambda>bf. \<not> suffix ''.json'' (path bf)) (files ex_pair_walked) =
      [BIDSFile ''/r/s/x.nii'', BIDSFile ''/r/s/y.nii'']"
    by (simp add: ex_pair_walked_def BIDSFile_def suffix_to_prefix)
  have ae: "dict_update [] (entities ex_pair_config) = entities ex_pair_config"
    by (simp add: dict_update_def ex_pair_config_def)
  have n: "new ex_pair_first = 4"
    by (simp add: ex_pair_first_def)
  have c: "commit (ex_pair_final\<lparr>new := 7\<rparr>) = Inr ex_pair_final"
    by (simp add: commit_def tag_key_def ex_pair_final_def ex_pair_walked_def BIDSFile_def Tag_def
        Entity_def FileAssociation_def ex_suffix_def ex_extension_def ex_pair_subject_def)
  show ?thesis
    by (simp add: index_layout_unfold cfg ex_pair_walk index_metadata_def index_metadata_run_def
        layout_get_def ex_pair_build fl ae ex_pair_body_x ex_pair_body_y n c del: index_dir.simps)
qed

theorem metadata_entity_created_once_witness:
  "index_metadata_file ex_shared_world ex_pair_file_data (BIDSFile ''/r/s/x.nii'')
     (entities ex_pair_config, ex_pair_walked) = Inr (ex_pair_registry, ex_pair_first) \<and>
   map_of ex_pair_registry ''a'' = Some (Entity ''a'' True) \<and>
   filter (\<lambda>e. name e = ''a'') (ents ex_pair_first) = [Entity ''a'' True] \<and>
   Tag (BIDSFile ''/r/s/x.nii'') (Entity ''a'' True) (JNum 1) None
     \<in> set (drop (length (tags ex_pair_walked)) (tags ex_pair_first)) \<and>
   (\<exists>ae3 s3.
      index_metadata_file ex_shared_world ex_pair_file_data (BIDSFile ''/r/s/y.nii'')
        (ex_pair_registry, ex_pair_first) = Inr (ae3, s3) \<and>
      map_of ae3 ''a'' = Some (Entity ''a'' True) \<and>
      filter (\<lambda>e. name e = ''a'') (ents s3) = [Entity ''a'' True] \<and>
      Tag (BIDSFile ''/r/s/y.nii'') (Entity ''a'' True) (JNum 1) None
        \<in> set (drop (length (tags ex_pair_first)) (tags s3)) \<and>
      distinct (map name (ents s3)))"
proof -
  have cons: "consolidate (rev [(Some [(''a'', JNum 1)], ''/r/T.json'')]) [] = Inr [(''a'', JNum 1)]"
    by (simp add: dict_update_def)
  have unseen: "''a'' \<notin> set (keys (entities ex_pair_config))"
    by (simp add: keys_def ex_pair_config_def)
  have reg: "distinct (map name (ents ex_pair_walked))"
    "name ` set (ents ex_pair_walked) \<subseteq> set (keys (entities ex_pair_config))"
    by (simp_all add: ex_pair_walked_def)
  have step: "index_metadata_file ex_shared_world ex_pair_file_data (BIDSFile ''/r/s/x.nii'')
     (entities ex_pair_config, ex_pair_walked) = Inr (ex_pair_registry, ex_pair_first)"
    by (simp add: index_metadata_file_def ex_pair_body_x)
  from metadata_entity_created_once [OF ex_pair_ancestry_x _ cons _ unseen reg, of "JNum 1"]
  obtain ae1 s1 where r:
    "index_metadata_file ex_shared_world ex_pair_file_data (BIDSFile ''/r/s/x.nii'')
       (entities ex_pair_config, ex_pair_walked) = Inr (ae1, s1)"
    "map_of ae1 ''a'' = Some (Entity ''a'' True)"
    "filter (\<lambda>e. name e = ''a'') (ents s1) = [Entity ''a'' True]"
    "Tag (BIDSFile ''/r/s/x.nii'') (Entity ''a'' True) (JNum 1) None
       \<in> set (drop (length (tags ex_pair_walked)) (tags s1))"
    "\<And>mid ae2 s2 bf2 payloads2 ancestors2 md2 v2.
         index_metadata_files ex_shared_world ex_pair_file_data mid (ae1, s1) = Inr (ae2, s2) \<Longrightarrow>
         ancestry_of ex_shared_world ex_pair_file_data s2 bf2 = Some (payloads2, ancestors2) \<Longrightarrow>
         payloads2 \<noteq> [] \<Longrightarrow>
         consolidate (rev payloads2) [] = Inr md2 \<Longrightarrow>
         (''a'', v2) \<in> set md2 \<Longrightarrow>
         (\<exists>ae3 s3.
            index_metadata_file ex_shared_world ex_pair_file_data bf2 (ae2, s2) = Inr (ae3, s3) \<and>
            map_of ae3 ''a'' = Some (Entity ''a'' True) \<and>
            filter (\<lambda>e. name e = ''a'') (ents s3) = [Entity ''a'' True] \<and>
            Tag bf2 (Entity ''a'' True) v2 None \<in> set (drop (length (tags s2)) (tags s3)) \<and>
            distinct (map name (ents s3)))"
    by (simp, elim exE conjE, blast)
  from r(1) step have eq: "ae1 = ex_pair_registry" "s1 = ex_pair_first" by simp_all
  have "index_metadata_files ex_shared_world ex_pair_file_data [] (ae1, s1) =
          Inr (ex_pair_registry, ex_pair_first)"
    by (simp add: eq)
  from r(5) [OF this ex_pair_ancestry_y _ cons, of "JNum 1"] step r(2,3,4)
  show ?thesis
    unfolding eq by simp
qed

section \<open>Runs that complete\<close>







text \<open>
  The run on the dataset whose sidecar has the key \<^verbatim>\<open>suffix\<close>: the walk tags \<^verbatim>\<open>x.nii\<close> with
  the entity \<^verbatim>\<open>suffix\<close>, the metadata pass adds a tag of the same file and entity, and the
  commit at the end of the pass raises.
\<close>

lemma ex_clash_run:
  "index_layout ex_clash_world ex_layout False True ex_clash_tree empty_session = Inl FlushError"
  by (simp add: index_layout_def index_metadata_def index_metadata_run_def layout_get_def
      ex_clash_world_def ex_layout_def ex_clash_tree_def empty_session_def ex_config_def
      os_path_join_def index_file_def index_file_match_vals_def check_path_matches_patterns_def
      add_file_def tag_key_def
      dict_values_def dict_update_def file_entities_def Tag_def BIDSFile_def
      os_path_dirname_def dict_pop_def is_not_None_def py_format_def fd_append_def Let_def
      ex_suffix_def ex_extension_def suffix_to_prefix index_metadata_body_def
      ancestry_loop.simps fd_get_def ents_match_def keys_def add_all_def FileAssociation_def
      Entity_def add_entity_def add_tag_def commit_def)

text \<open>
  The run on the dataset with two data files of the same entities in one directory: each
  of them is an ancestor of the other, the links between them are added once for each,
  and the commit at the end of the pass raises.
\<close>

lemma ex_shared_run:
  "index_layout ex_shared_world ex_layout False True ex_shared_tree empty_session =
     Inl IntegrityError"
  by (simp add: index_layout_def index_metadata_def index_metadata_run_def layout_get_def
      ex_shared_world_def ex_layout_def ex_shared_tree_def empty_session_def ex_config_def
      os_path_join_def index_file_def index_file_match_vals_def check_path_matches_patterns_def
      add_file_def tag_key_def
      dict_values_def dict_update_def file_entities_def Tag_def BIDSFile_def
      os_path_dirname_def dict_pop_def is_not_None_def py_format_def fd_append_def Let_def
      ex_suffix_def ex_extension_def suffix_to_prefix index_metadata_body_def
      ancestry_loop.simps fd_get_def ents_match_def keys_def add_all_def FileAssociation_def
      Entity_def add_entity_def add_tag_def commit_def)


end
